theory Spec2Isabelle
  imports Complex_Main
begin

section \<open>Strings\<close>

text \<open>
  A string of the program is a \<^typ>\<open>string\<close>: each \<^typ>\<open>char\<close> stands for one code unit
  below 256. The white space of \<^verbatim>\<open>String.prototype.trim\<close> and of \<^verbatim>\<open>parseFloat\<close> in that
  range is TAB, LF, VT, FF, CR, SPACE and NBSP.
\<close>

definition isWhiteSpace :: "char \<Rightarrow> bool" where
  "isWhiteSpace c =
     (c \<in> set [CHR 0x09, CHR 0x0A, CHR 0x0B, CHR 0x0C, CHR 0x0D, CHR 0x20, CHR 0xA0])"

definition trimStart :: "string \<Rightarrow> string" where
  "trimStart s = dropWhile isWhiteSpace s"

definition trim :: "string \<Rightarrow> string" where
  "trim s = rev (dropWhile isWhiteSpace (rev (dropWhile isWhiteSpace s)))"

text \<open>\<^verbatim>\<open>s.split(d)\<close> for a one-character separator: never empty, one more piece than separators.\<close>

fun split_on :: "char \<Rightarrow> string \<Rightarrow> string list" where
  "split_on d [] = [[]]"
| "split_on d (c # cs) =
     (if c = d then [] # split_on d cs
      else (case split_on d cs of [] \<Rightarrow> [[c]] | w # ws \<Rightarrow> (c # w) # ws))"

definition isDigit :: "char \<Rightarrow> bool" where
  "isDigit c = (48 \<le> (of_char c :: nat) \<and> (of_char c :: nat) \<le> 57)"

definition digitsValue :: "string \<Rightarrow> int" where
  "digitsValue ds = foldl (\<lambda>n c. 10 * n + (of_char c - 48)) 0 ds"

definition digit :: "nat \<Rightarrow> char" where
  "digit d = ''0123456789'' ! d"

fun show_nat :: "nat \<Rightarrow> string" where
  "show_nat n = (if n < 10 then [digit n] else show_nat (n div 10) @ [digit (n mod 10)])"

declare show_nat.simps [simp del]

section \<open>Numbers\<close>

text \<open>
  A number of the program is an IEEE binary64 value. A finite nonzero value and \<open>+0\<close> are
  \<open>Fin r\<close> with \<open>r\<close> the exact rational value; \<open>-0\<close> is \<open>NegZero\<close>. Parsing and addition
  compute on the rationals and round the result to binary64.
\<close>

datatype jsnum = NaN | PosInf | NegInf | NegZero | Fin rat

definition pow2 :: "int \<Rightarrow> rat" where
  "pow2 e = (if 0 \<le> e then 2 ^ nat e else 1 / 2 ^ nat (- e))"

definition pow10 :: "int \<Rightarrow> rat" where
  "pow10 e = (if 0 \<le> e then 10 ^ nat e else 1 / 10 ^ nat (- e))"

definition round_half_even :: "rat \<Rightarrow> int" where
  "round_half_even x =
     (let f = \<lfloor>x\<rfloor>; d = x - of_int f
      in if d < 1 / 2 then f else if 1 / 2 < d then f + 1 else if even f then f else f + 1)"

text \<open>The number of binary digits of a positive integer.\<close>

function bitlen :: "int \<Rightarrow> int" where
  "bitlen n = (if n \<le> 0 then 0 else 1 + bitlen (n div 2))"
  by pat_completeness auto
termination
  by (relation "measure nat") auto

declare bitlen.simps [simp del]

text \<open>For \<open>0 < x\<close>, the exponent \<open>e\<close> with \<open>2 ^ e \<le> x < 2 ^ (e + 1)\<close>.\<close>

definition ilog2 :: "rat \<Rightarrow> int" where
  "ilog2 x =
     (let (p, q) = quotient_of x; e = bitlen p - bitlen q
      in if pow2 e \<le> x then e else e - 1)"

text \<open>
  The binary64 value of a rational: round to nearest, ties to even, with 53 significant bits
  and the subnormal quantum \<open>2 ^ -1074\<close>. The significand \<open>m\<close> is at most \<open>2 ^ 53\<close> and the
  largest finite value is \<open>(2 ^ 53 - 1) * 2 ^ 971\<close>, so the rounded value reaches \<open>2 ^ 1024\<close>,
  and becomes an infinity, when the quantum \<open>2 ^ q\<close> is above \<open>2 ^ 971\<close>, or is \<open>2 ^ 971\<close>
  with \<open>m = 2 ^ 53\<close>.
\<close>

definition round64 :: "rat \<Rightarrow> jsnum" where
  "round64 x =
     (if x = 0 then Fin 0
      else let a = \<bar>x\<bar>; e = ilog2 a; q = max (e - 52) (- 1074);
               m = round_half_even (a / pow2 q)
           in if 971 < q \<or> (q = 971 \<and> 2 ^ 53 \<le> m) then (if x < 0 then NegInf else PosInf)
              else if m = 0 then (if x < 0 then NegZero else Fin 0)
              else Fin (if x < 0 then - (of_int m * pow2 q) else of_int m * pow2 q))"

text \<open>The operator \<^verbatim>\<open>+\<close> on numbers.\<close>

fun js_add :: "jsnum \<Rightarrow> jsnum \<Rightarrow> jsnum" where
  "js_add NaN _ = NaN"
| "js_add _ NaN = NaN"
| "js_add PosInf NegInf = NaN"
| "js_add NegInf PosInf = NaN"
| "js_add PosInf _ = PosInf"
| "js_add _ PosInf = PosInf"
| "js_add NegInf _ = NegInf"
| "js_add _ NegInf = NegInf"
| "js_add NegZero y = y"
| "js_add (Fin a) NegZero = Fin a"
| "js_add (Fin a) (Fin b) = round64 (a + b)"

text \<open>The comparisons \<^verbatim>\<open>x > 0\<close>, \<^verbatim>\<open>x < 0\<close> and \<^verbatim>\<open>x >= 0\<close>: all false on \<open>NaN\<close>.\<close>

fun gt_zero :: "jsnum \<Rightarrow> bool" where
  "gt_zero PosInf = True"
| "gt_zero (Fin r) = (0 < r)"
| "gt_zero _ = False"

fun lt_zero :: "jsnum \<Rightarrow> bool" where
  "lt_zero NegInf = True"
| "lt_zero (Fin r) = (r < 0)"
| "lt_zero _ = False"

fun ge_zero :: "jsnum \<Rightarrow> bool" where
  "ge_zero NaN = False"
| "ge_zero NegInf = False"
| "ge_zero (Fin r) = (0 \<le> r)"
| "ge_zero _ = True"

text \<open>\<^verbatim>\<open>Math.abs\<close>, \<^verbatim>\<open>isNaN\<close> and finiteness.\<close>

fun js_abs :: "jsnum \<Rightarrow> jsnum" where
  "js_abs NaN = NaN"
| "js_abs PosInf = PosInf"
| "js_abs NegInf = PosInf"
| "js_abs NegZero = Fin 0"
| "js_abs (Fin r) = Fin \<bar>r\<bar>"

definition isNaN :: "jsnum \<Rightarrow> bool" where
  "isNaN x = (x = NaN)"

fun is_finite :: "jsnum \<Rightarrow> bool" where
  "is_finite NegZero = True"
| "is_finite (Fin r) = True"
| "is_finite _ = False"

subsection \<open>parseFloat\<close>

text \<open>
  \<^verbatim>\<open>parseFloat\<close> skips leading white space and reads the longest prefix that is a
  \<^verbatim>\<open>StrDecimalLiteral\<close>: an optional sign, then \<^verbatim>\<open>Infinity\<close> or decimal digits with an
  optional fraction and an optional exponent (digits and a point without digits after it, or a
  point and digits, are literals; a point alone is not, and an exponent without digits is not
  part of the prefix). Whatever follows the prefix is ignored; with no such prefix the result
  is \<open>NaN\<close>. The value of the literal is rounded to the nearest binary64 value.
\<close>

datatype literal = LitInfinity | LitDecimal rat

definition exponentPart :: "string \<Rightarrow> int" where
  "exponentPart s =
     (case s of
        [] \<Rightarrow> 0
      | c # r \<Rightarrow>
          if c = CHR ''e'' \<or> c = CHR ''E'' then
            (case r of
               [] \<Rightarrow> 0
             | d # r' \<Rightarrow>
                 if d = CHR ''-'' then - digitsValue (takeWhile isDigit r')
                 else if d = CHR ''+'' then digitsValue (takeWhile isDigit r')
                 else digitsValue (takeWhile isDigit r))
          else 0)"

definition strUnsignedDecimalLiteral :: "string \<Rightarrow> literal option" where
  "strUnsignedDecimalLiteral u =
     (if take 8 u = ''Infinity'' then Some LitInfinity
      else
        let ip = takeWhile isDigit u;
            r1 = dropWhile isDigit u;
            dot = (r1 \<noteq> [] \<and> hd r1 = CHR ''.'');
            fp = (if dot then takeWhile isDigit (tl r1) else []);
            r2 = (if dot then dropWhile isDigit (tl r1) else r1)
        in if ip = [] \<and> fp = [] then None
           else Some (LitDecimal
             ((of_int (digitsValue ip) + of_int (digitsValue fp) / 10 ^ length fp)
               * pow10 (exponentPart r2))))"

definition parseFloat :: "string \<Rightarrow> jsnum" where
  "parseFloat s =
     (let t = trimStart s;
          neg = (t \<noteq> [] \<and> hd t = CHR ''-'');
          u = (if t \<noteq> [] \<and> (hd t = CHR ''-'' \<or> hd t = CHR ''+'') then tl t else t)
      in case strUnsignedDecimalLiteral u of
           None \<Rightarrow> NaN
         | Some LitInfinity \<Rightarrow> (if neg then NegInf else PosInf)
         | Some (LitDecimal v) \<Rightarrow>
             (if neg then (if v = 0 then NegZero else round64 (- v)) else round64 v))"

section \<open>The CSV parser\<close>

record transaction =
  date :: string
  description :: string
  amount :: jsnum

text \<open>
  The loop of \<^verbatim>\<open>parseCSV\<close> over the lines after the header; \<open>acc\<close> is the list
  \<^verbatim>\<open>transactions\<close> that the loop pushes to.
\<close>

fun parseLines :: "string list \<Rightarrow> transaction list \<Rightarrow> transaction list" where
  "parseLines [] acc = acc"
| "parseLines (line # rest) acc =
     (if trim line = [] then parseLines rest acc
      else
        let parts = split_on CHR '','' line
        in if 3 \<le> length parts then
             let d = trim (parts ! 0);
                 ds = trim (parts ! 1);
                 a = parseFloat (trim (parts ! 2))
             in if d \<noteq> [] \<and> ds \<noteq> [] \<and> \<not> isNaN a
                then parseLines rest (acc @ [\<lparr>date = d, description = ds, amount = a\<rparr>])
                else parseLines rest acc
           else parseLines rest acc)"

definition parseCSV :: "string \<Rightarrow> transaction list" where
  "parseCSV csvContent = parseLines (drop 1 (split_on CHR 0x0A csvContent)) []"


section \<open>The transaction aggregator\<close>

text \<open>
  The two totals that \<^verbatim>\<open>sendMessage\<close> computes: \<^verbatim>\<open>filter\<close>, then \<^verbatim>\<open>reduce\<close> from \<open>0\<close>
  with \<^verbatim>\<open>(sum, t) => sum + t.amount\<close>. The summary sentence shows
  \<^verbatim>\<open>Math.abs(totalExpenses)\<close>.
\<close>

definition totalIncome :: "transaction list \<Rightarrow> jsnum" where
  "totalIncome ts =
     foldl (\<lambda>sum t. js_add sum (amount t)) (Fin 0) (filter (\<lambda>t. gt_zero (amount t)) ts)"

definition totalExpenses :: "transaction list \<Rightarrow> jsnum" where
  "totalExpenses ts =
     foldl (\<lambda>sum t. js_add sum (amount t)) (Fin 0) (filter (\<lambda>t. lt_zero (amount t)) ts)"

record summary =
  count :: nat
  income :: jsnum
  expenses :: jsnum

definition summarize :: "transaction list \<Rightarrow> summary" where
  "summarize ts =
     \<lparr>count = length ts, income = totalIncome ts, expenses = js_abs (totalExpenses ts)\<rparr>"

section \<open>The transaction viewer\<close>

text \<open>
  The body of the table is a list of rows. \<^verbatim>\<open>toLocaleString\<close> with the currency style
  belongs to the internationalisation library: its result is the parameter \<open>currency\<close>.
\<close>

datatype table_row =
    NoTransactionsRow
  | Row string string string string

definition amountClass :: "jsnum \<Rightarrow> string" where
  "amountClass a = (if ge_zero a then ''amount-positive'' else ''amount-negative'')"

fun renderRows :: "(jsnum \<Rightarrow> string) \<Rightarrow> transaction list \<Rightarrow> table_row list \<Rightarrow> table_row list" where
  "renderRows currency [] body = body"
| "renderRows currency (trx # rest) body =
     renderRows currency rest
       (body @ [Row (date trx) (description trx) (amountClass (amount trx)) (currency (amount trx))])"

definition renderTransactionsTable :: "(jsnum \<Rightarrow> string) \<Rightarrow> transaction list \<Rightarrow> table_row list" where
  "renderTransactionsTable currency ts =
     (if length ts = 0 then [NoTransactionsRow] else renderRows currency ts [])"

section \<open>Formatting\<close>

text \<open>
  \<^verbatim>\<open>Number.prototype.toFixed(2)\<close>. A value that is not finite gives its name. A finite value
  below \<open>10 ^ 21\<close> in magnitude gives the digits of the integer \<open>n\<close> for which \<open>n / 100\<close> is
  nearest to it (the larger \<open>n\<close> on a tie), with a point before the last two and a leading
  \<^verbatim>\<open>-\<close> for a value below zero. From \<open>10 ^ 21\<close> on the result is the exponent notation of
  \<^verbatim>\<open>Number::toString\<close>, whose choice of digits is left to the engine: it is the parameter
  \<open>sci\<close>.
\<close>

definition fixed2 :: "rat \<Rightarrow> string" where
  "fixed2 x =
     (let m = show_nat (nat \<lfloor>x * 100 + 1 / 2\<rfloor>);
          m' = (if length m \<le> 2 then replicate (3 - length m) CHR ''0'' @ m else m)
      in take (length m' - 2) m' @ ''.'' @ drop (length m' - 2) m')"

fun toFixed2 :: "(rat \<Rightarrow> string) \<Rightarrow> jsnum \<Rightarrow> string" where
  "toFixed2 sci NaN = ''NaN''"
| "toFixed2 sci PosInf = ''Infinity''"
| "toFixed2 sci NegInf = ''-Infinity''"
| "toFixed2 sci NegZero = fixed2 0"
| "toFixed2 sci (Fin r) =
     (if r < 0 then ''-'' else []) @ (if 10 ^ 21 \<le> \<bar>r\<bar> then sci \<bar>r\<bar> else fixed2 \<bar>r\<bar>)"

text \<open>
  The two replacements applied to the response text. \<^verbatim>\<open>/\*\*(.*?)\*\*/g\<close> scans from the
  left; at a \<^verbatim>\<open>**\<close> it takes the shortest run of characters other than line terminators (the
  dot matches neither LF nor CR) that is followed by \<^verbatim>\<open>**\<close>, and resumes after the match; where
  there is no such run the character is kept and the scan moves on by one.
\<close>

definition isLineTerminator :: "char \<Rightarrow> bool" where
  "isLineTerminator c = (c = CHR 0x0A \<or> c = CHR 0x0D)"

fun find_close :: "string \<Rightarrow> (string \<times> string) option" where
  "find_close [] = None"
| "find_close (c # cs) =
     (if take 2 (c # cs) = ''**'' then Some ([], drop 2 (c # cs))
      else if isLineTerminator c then None
      else (case find_close cs of None \<Rightarrow> None | Some (inner, rest) \<Rightarrow> Some (c # inner, rest)))"

lemma find_close_length: "find_close s = Some (inner, rest) \<Longrightarrow> length rest < length s"
  by (induction s arbitrary: inner rest) (auto split: if_splits option.splits)

function replace_strong :: "string \<Rightarrow> string" where
  "replace_strong [] = []"
| "replace_strong (c # cs) =
     (if take 2 (c # cs) = ''**'' then
        (case find_close (drop 2 (c # cs)) of
           Some (inner, rest) \<Rightarrow> ''<strong>'' @ inner @ ''</strong>'' @ replace_strong rest
         | None \<Rightarrow> c # replace_strong cs)
      else c # replace_strong cs)"
  by pat_completeness auto
termination
proof (relation "measure length")
  show "wf (measure length)" by simp
next
  fix c :: char and cs x2 x y
  assume "find_close (drop 2 (c # cs)) = Some x2" and "(x, y) = x2"
  then have "length y < length (drop 2 (c # cs))"
    using find_close_length [of "drop 2 (c # cs)" x y] by simp
  then show "(y, c # cs) \<in> measure length" by simp
qed simp_all

definition replace_newlines :: "string \<Rightarrow> string" where
  "replace_newlines s = concat (map (\<lambda>c. if c = CHR 0x0A then ''<br>'' else [c]) s)"

definition formatText :: "string \<Rightarrow> string" where
  "formatText fullResponse = replace_newlines (replace_strong fullResponse)"

section \<open>The page\<close>

text \<open>
  The chat log is the list of the children of \<^verbatim>\<open>chatHistory\<close>, which only grows. A message
  wrapper is \<open>Message sender html button\<close>: \<open>html\<close> is the text last assigned to the
  \<^verbatim>\<open>innerHTML\<close> of its message element and \<open>button\<close> tells whether the button
  \<^verbatim>\<open>View Transactions\<close> was appended to it. A message element is referred to by its position
  in the log. The text of a message is parsed as markup by the browser, so that the elements
  matched by \<^verbatim>\<open>.message.user\<close> are the message elements of the user messages together with
  the elements of these classes that the parser makes of the texts; the parser is a parameter
  of the model. The buttons of a block of suggested prompts carry the texts of the table, which
  hold no markup. Buttons that markup in a message text would create, and the scroll position,
  are not modelled.
\<close>

datatype sender = User | Model

datatype entry =
    Message sender string bool
  | SuggestedPrompts "string list"

record chat_session =
  model :: string
  systemInstruction :: string

record state =
  chat :: "chat_session option"
  userProfile :: "string option"
  uploadedFile :: "string option"
  transactions :: "transaction list"
  chatHistory :: "entry list"
  chatInput_value :: string
  chatInput_disabled :: bool
  sendButton_disabled :: bool
  attachButton_disabled :: bool
  filePreview :: "string option"
  transactionTable :: "table_row list"
  transactionView_hidden :: bool
  profileSelector_hidden :: bool
  app_hidden :: bool

text \<open>
  What the program takes from its surroundings: the key of the build, the two number
  formats of the engine that are not spelled out here, and the parser of the browser, of which
  the program uses one number: how many elements matching \<^verbatim>\<open>.message.user\<close> it makes of a
  text assigned to \<^verbatim>\<open>innerHTML\<close>.
\<close>

record env =
  API_KEY :: "string option"
  numberToString :: "rat \<Rightarrow> string"
  formatCurrency :: "jsnum \<Rightarrow> string"
  userMessageElements :: "string \<Rightarrow> nat"

definition suggestedPrompts :: "(string \<times> string list) list" where
  "suggestedPrompts =
     [(''Student'',
         [''How do I build credit?'', ''Budgeting tips for students'', ''Should I start investing?'']),
      (''Professional'',
         [''How to save for a house?'', ''401(k) vs. IRA'', ''Understanding my taxes'']),
      (''Retiree'',
         [''Managing retirement income'', ''Estate planning basics'',
          ''Minimizing taxes in retirement''])]"

text \<open>
  A key that the table lacks is looked up in \<^verbatim>\<open>Object.prototype\<close>. Its members are functions,
  listed here with their \<^verbatim>\<open>length\<close>, and \<^verbatim>\<open>__proto__\<close>, an object without a \<^verbatim>\<open>length\<close>.
\<close>

definition objectPrototype :: "(string \<times> nat option) list" where
  "objectPrototype =
     [(''constructor'', Some 1), (''hasOwnProperty'', Some 1), (''isPrototypeOf'', Some 1),
      (''propertyIsEnumerable'', Some 1), (''toLocaleString'', Some 0), (''toString'', Some 0),
      (''valueOf'', Some 0), (''__defineGetter__'', Some 2), (''__defineSetter__'', Some 2),
      (''__lookupGetter__'', Some 1), (''__lookupSetter__'', Some 1), (''__proto__'', None)]"

text \<open>
  What is thrown inside the \<^verbatim>\<open>try\<close> block of \<^verbatim>\<open>sendMessage\<close>: a \<^verbatim>\<open>TypeError\<close> of the
  program itself, or the error of a request that failed. The one handler treats them alike.
\<close>

datatype error = TypeError | RequestError

definition addMessage :: "sender \<Rightarrow> string \<Rightarrow> state \<Rightarrow> state \<times> nat" where
  "addMessage sndr text st =
     (st\<lparr>chatHistory := chatHistory st @ [Message sndr text False]\<rparr>, length (chatHistory st))"

definition set_innerHTML :: "nat \<Rightarrow> string \<Rightarrow> state \<Rightarrow> state" where
  "set_innerHTML el text st =
     (if el < length (chatHistory st) then
        (case chatHistory st ! el of
           Message sndr old button \<Rightarrow>
             st\<lparr>chatHistory := (chatHistory st)[el := Message sndr text False]\<rparr>
         | SuggestedPrompts ps \<Rightarrow> st)
      else st)"

definition isUserMessage :: "entry \<Rightarrow> bool" where
  "isUserMessage e = (case e of Message sndr text button \<Rightarrow> sndr = User | SuggestedPrompts ps \<Rightarrow> False)"

text \<open>The number of user messages that the log holds.\<close>

definition userEntries :: "state \<Rightarrow> nat" where
  "userEntries st = length (filter isUserMessage (chatHistory st))"

text \<open>
  The number of elements of the log that \<^verbatim>\<open>.message.user\<close> matches: the message element
  of every user message, and every such element that the parser made of the text of a message,
  of either sender, when the text was assigned as markup.
\<close>

definition userElements :: "(string \<Rightarrow> nat) \<Rightarrow> entry \<Rightarrow> nat" where
  "userElements markup e =
     (case e of
        Message sndr html button \<Rightarrow> (if sndr = User then 1 else 0) + markup html
      | SuggestedPrompts ps \<Rightarrow> 0)"

definition userMessageCount :: "(string \<Rightarrow> nat) \<Rightarrow> state \<Rightarrow> nat" where
  "userMessageCount markup st = sum_list (map (userElements markup) (chatHistory st))"

definition systemInstructionFor :: "string option \<Rightarrow> string" where
  \<open>systemInstructionFor profile =
     ''You are a friendly and knowledgeable personal finance assistant called "FinBot".\<newline>''
     @ ''Your goal is to provide helpful guidance on savings, taxes, and investments.\<newline>''
     @ ''You MUST tailor your advice to the user's specified profile: **''
     @ (case profile of None \<Rightarrow> ''null'' | Some p \<Rightarrow> p) @ ''**.\<newline>''
     @ ''When a user asks a question about an uploaded CSV file, use the information provided in the prompt to answer.\<newline>''
     @ ''Keep your answers concise, clear, and easy to understand.\<newline>''
     @ ''Start the conversation by introducing yourself and acknowledging the user's profile.\<newline>''
     @ ''IMPORTANT: Always include this disclaimer at the end of every response: "Disclaimer: I am an AI assistant. This information is for educational purposes only. Please consult with a qualified financial advisor before making any financial decisions."''\<close>

definition configurationErrorText :: string where
  "configurationErrorText =
     ''<strong>Error:</strong> API_KEY environment variable not set.. Please ensure your API key is set up correctly and refresh the page.''"

text \<open>
  \<^verbatim>\<open>initializeChat\<close>: a missing or empty key throws inside the \<^verbatim>\<open>try\<close>, and the handler
  appends the message; \<^verbatim>\<open>chat\<close> is then not assigned. The constructor of the client and
  \<^verbatim>\<open>chats.create\<close> belong to the library; they make no request and are taken to return.
\<close>

definition initializeChat :: "env \<Rightarrow> state \<Rightarrow> state" where
  "initializeChat env st =
     (if API_KEY env = None \<or> API_KEY env = Some [] then
        fst (addMessage Model configurationErrorText st)
      else
        st\<lparr>chat := Some \<lparr>model = ''gemini-2.5-flash'',
                           systemInstruction = systemInstructionFor (userProfile st)\<rparr>\<rparr>)"

text \<open>
  \<^verbatim>\<open>renderSuggestedPrompts\<close>. An inherited function of length 0 ends it like an empty list;
  any other inherited member has no \<^verbatim>\<open>forEach\<close>, and the call throws before the log changes.
\<close>

definition renderSuggestedPrompts :: "state \<Rightarrow> error + state" where
  "renderSuggestedPrompts st =
     (case userProfile st of
        None \<Rightarrow> Inr st
      | Some p \<Rightarrow>
          (case map_of suggestedPrompts p of
             Some prompts \<Rightarrow>
               if length prompts = 0 then Inr st
               else Inr (st\<lparr>chatHistory := chatHistory st @ [SuggestedPrompts prompts]\<rparr>)
           | None \<Rightarrow>
               (case map_of objectPrototype p of
                  None \<Rightarrow> Inr st
                | Some len \<Rightarrow> if len = Some 0 then Inr st else Inl TypeError)))"

definition setFormState :: "bool \<Rightarrow> state \<Rightarrow> state" where
  "setFormState isLoading st =
     st\<lparr>chatInput_disabled := isLoading, sendButton_disabled := isLoading,
        attachButton_disabled := isLoading\<rparr>"

definition resetFileInput :: "state \<Rightarrow> state" where
  "resetFileInput st = st\<lparr>uploadedFile := None, transactions := [], filePreview := None\<rparr>"

definition addTransactionAnalysisMessage :: "state \<Rightarrow> state" where
  "addTransactionAnalysisMessage st =
     (if length (transactions st) > 0 then
        st\<lparr>chatHistory := chatHistory st @
             [Message Model
                (''I've analyzed your CSV file with '' @ show_nat (length (transactions st))
                 @ '' transactions. You can view them or ask me questions about the data.'')
                True]\<rparr>
      else
        fst (addMessage Model
          ''I couldn't find any valid transactions in your CSV. Please check the format (e.g., Date,Description,Amount) and try again.''
          st))"

section \<open>Sending a message\<close>

definition summarySentence :: "(rat \<Rightarrow> string) \<Rightarrow> transaction list \<Rightarrow> string" where
  "summarySentence sci ts =
     ''The user has uploaded a CSV with '' @ show_nat (length ts)
     @ '' transactions. Total income: '' @ toFixed2 sci (totalIncome ts)
     @ '', Total expenses: '' @ toFixed2 sci (js_abs (totalExpenses ts)) @ ''.''"

definition promptFor :: "(rat \<Rightarrow> string) \<Rightarrow> state \<Rightarrow> string \<Rightarrow> string" where
  \<open>promptFor sci st messageText =
     (if uploadedFile st \<noteq> None \<and> length (transactions st) > 0 then
        summarySentence sci (transactions st)
        @ ''\<newline>\<newline>Please answer the user's question based on this data: "'' @ messageText @ ''"''
      else messageText)\<close>

definition loadingIndicators :: string where
  \<open>loadingIndicators =
     ''<div class="loading-indicator"></div><div class="loading-indicator"></div><div class="loading-indicator"></div>''\<close>

definition failureText :: string where
  "failureText = ''Sorry, something went wrong. Please try again.''"

text \<open>
  A call of \<^verbatim>\<open>sendMessage\<close> runs up to its first \<^verbatim>\<open>await\<close> and is then resumed by the
  stream: when the request is answered or refused, at each chunk, and when the stream ends or
  throws. Between two of these points other handlers of the page may run. What a suspended
  call keeps is its \<open>frame\<close>: the placeholder element, the response so far, and where it
  stands. \<open>requests\<close> lists the prompts handed to \<^verbatim>\<open>chat.sendMessageStream\<close>, and \<open>reads\<close>
  counts the file reads that have not called back yet.
\<close>

datatype phase = Requesting | Streaming | Finished

record frame =
  el :: nat
  fullResponse :: string
  phase :: phase

record config =
  page :: state
  sends :: "frame list"
  requests :: "string list"
  reads :: nat

text \<open>
  The handler \<^verbatim>\<open>catch\<close> followed by \<^verbatim>\<open>finally\<close>, for the placeholder \<open>e\<close>; \<^verbatim>\<open>finally\<close>
  alone is \<open>setFormState False\<close>.
\<close>

definition catch_finally :: "nat \<Rightarrow> state \<Rightarrow> state" where
  "catch_finally e st = setFormState False (set_innerHTML e failureText st)"

text \<open>
  The call itself. With \<^verbatim>\<open>chat\<close> unassigned, \<^verbatim>\<open>chat.sendMessageStream\<close> throws a
  \<^verbatim>\<open>TypeError\<close> at once: no request is made and the call ends without ever being suspended.
\<close>

definition sendMessage :: "(rat \<Rightarrow> string) \<Rightarrow> string \<Rightarrow> config \<Rightarrow> config" where
  "sendMessage sci messageText c =
     (if trim messageText = [] then c
      else
        let st1 = setFormState True (page c);
            prompt = promptFor sci st1 messageText;
            st2 = fst (addMessage User messageText st1);
            st3 = st2\<lparr>chatInput_value := []\<rparr>;
            (st4, modelMessageElement) = addMessage Model loadingIndicators st3
        in case chat st4 of
             None \<Rightarrow> c\<lparr>page := catch_finally modelMessageElement st4\<rparr>
           | Some session \<Rightarrow>
               c\<lparr>page := st4,
                 sends := sends c @
                   [\<lparr>el = modelMessageElement, fullResponse = [], phase = Requesting\<rparr>],
                 requests := requests c @ [prompt]\<rparr>)"

text \<open>The request is answered: the placeholder is emptied and the first chunk awaited.\<close>

definition resolved :: "nat \<Rightarrow> config \<Rightarrow> config" where
  "resolved i c =
     (if i < length (sends c) \<and> phase (sends c ! i) = Requesting then
        let f = sends c ! i
        in c\<lparr>page := set_innerHTML (el f) [] (page c),
             sends := (sends c)[i := f\<lparr>fullResponse := [], phase := Streaming\<rparr>]\<rparr>
      else c)"

text \<open>One turn of the loop over the chunks, with the text of the chunk.\<close>

definition chunkArrived :: "nat \<Rightarrow> string \<Rightarrow> config \<Rightarrow> config" where
  "chunkArrived i text c =
     (if i < length (sends c) \<and> phase (sends c ! i) = Streaming then
        let f = sends c ! i;
            full = fullResponse f @ text
        in c\<lparr>page := set_innerHTML (el f) (formatText full) (page c),
             sends := (sends c)[i := f\<lparr>fullResponse := full\<rparr>]\<rparr>
      else c)"

text \<open>
  The stream ends: the test on the number of elements matching \<^verbatim>\<open>.message.user\<close>, then
  \<^verbatim>\<open>finally\<close>.
\<close>

definition streamEnded :: "(string \<Rightarrow> nat) \<Rightarrow> nat \<Rightarrow> config \<Rightarrow> config" where
  "streamEnded markup i c =
     (if i < length (sends c) \<and> phase (sends c ! i) = Streaming then
        let f = sends c ! i;
            st = page c;
            r = (if userMessageCount markup st = 1 then renderSuggestedPrompts st else Inr st)
        in c\<lparr>page := (case r of Inr st' \<Rightarrow> setFormState False st'
                                | Inl err \<Rightarrow> catch_finally (el f) st),
             sends := (sends c)[i := f\<lparr>phase := Finished\<rparr>]\<rparr>
      else c)"

text \<open>The request is refused, or the stream throws while it is read.\<close>

definition rejected :: "nat \<Rightarrow> config \<Rightarrow> config" where
  "rejected i c =
     (if i < length (sends c) \<and> phase (sends c ! i) = Requesting then
        let f = sends c ! i
        in c\<lparr>page := catch_finally (el f) (page c),
             sends := (sends c)[i := f\<lparr>phase := Finished\<rparr>]\<rparr>
      else c)"

definition streamFailed :: "nat \<Rightarrow> config \<Rightarrow> config" where
  "streamFailed i c =
     (if i < length (sends c) \<and> phase (sends c ! i) = Streaming then
        let f = sends c ! i
        in c\<lparr>page := catch_finally (el f) (page c),
             sends := (sends c)[i := f\<lparr>phase := Finished\<rparr>]\<rparr>
      else c)"

section \<open>The listeners\<close>

text \<open>
  The click on a profile button, with the value of its \<^verbatim>\<open>data-profile\<close> attribute; a missing
  or empty value leaves \<^verbatim>\<open>userProfile\<close> at \<^verbatim>\<open>null\<close> and does nothing else.
\<close>

definition profileClick :: "env \<Rightarrow> string option \<Rightarrow> config \<Rightarrow> config" where
  "profileClick env tag c =
     (case tag of
        None \<Rightarrow> c\<lparr>page := (page c)\<lparr>userProfile := None\<rparr>\<rparr>
      | Some p \<Rightarrow>
          if p = [] then c\<lparr>page := (page c)\<lparr>userProfile := None\<rparr>\<rparr>
          else
            let st = (page c)\<lparr>userProfile := Some p, profileSelector_hidden := True,
                              app_hidden := False\<rparr>
            in sendMessage (numberToString env) (''Hi! My profile is: '' @ p)
                 (c\<lparr>page := initializeChat env st\<rparr>))"

text \<open>The \<^verbatim>\<open>submit\<close> listener of the form.\<close>

definition formSubmit :: "env \<Rightarrow> config \<Rightarrow> config" where
  "formSubmit env c = sendMessage (numberToString env) (chatInput_value (page c)) c"

text \<open>
  The click listener of the log, for the button \<open>j\<close> of the entry \<open>k\<close>: a suggested prompt
  fills the input field and dispatches \<^verbatim>\<open>submit\<close>; \<^verbatim>\<open>View Transactions\<close> renders the table
  and shows the viewer.
\<close>

definition historyClick :: "env \<Rightarrow> nat \<Rightarrow> nat \<Rightarrow> config \<Rightarrow> config" where
  "historyClick env k j c =
     (if k < length (chatHistory (page c)) then
        (case chatHistory (page c) ! k of
           SuggestedPrompts ps \<Rightarrow>
             if j < length ps
             then formSubmit env (c\<lparr>page := (page c)\<lparr>chatInput_value := ps ! j\<rparr>\<rparr>)
             else c
         | Message sndr text button \<Rightarrow>
             if button \<and> j = 0
             then c\<lparr>page := (page c)\<lparr>transactionTable :=
                               renderTransactionsTable (formatCurrency env) (transactions (page c)),
                             transactionView_hidden := False\<rparr>\<rparr>
             else c)
      else c)"

text \<open>
  \<^verbatim>\<open>handleFileSelect\<close> with the name of the chosen file, if any, and the two callbacks of the
  reader.
\<close>

definition handleFileSelect :: "string option \<Rightarrow> config \<Rightarrow> config" where
  "handleFileSelect file c =
     (case file of
        None \<Rightarrow> c
      | Some name \<Rightarrow>
          c\<lparr>page := (page c)\<lparr>uploadedFile := Some name, filePreview := Some name\<rparr>,
            reads := reads c + 1\<rparr>)"

definition readerLoaded :: "string \<Rightarrow> config \<Rightarrow> config" where
  "readerLoaded text c =
     c\<lparr>page := addTransactionAnalysisMessage ((page c)\<lparr>transactions := parseCSV text\<rparr>),
       reads := reads c - 1\<rparr>"

definition readerFailed :: "config \<Rightarrow> config" where
  "readerFailed c =
     c\<lparr>page := resetFileInput
                (fst (addMessage Model ''Sorry, there was an error reading your file.'' (page c))),
       reads := reads c - 1\<rparr>"

text \<open>
  The events of a run. The browser delivers no typing and no click to a disabled or hidden
  control, and a callback only to a call or a read that is waiting for it; everything else is
  decided by the listeners above.
\<close>

datatype event =
    SelectProfile "string option"
  | TypeAndSubmit string
  | ClickInHistory nat nat
  | CloseViewer
  | ChooseFile "string option"
  | FileLoaded string
  | FileFailed
  | RemoveFile
  | Resolved nat
  | Rejected nat
  | ChunkArrived nat string
  | StreamEnded nat
  | StreamFailed nat

fun step :: "env \<Rightarrow> event \<Rightarrow> config \<Rightarrow> config" where
  "step env (SelectProfile tag) c =
     (if profileSelector_hidden (page c) then c else profileClick env tag c)"
| "step env (TypeAndSubmit text) c =
     (if app_hidden (page c) \<or> chatInput_disabled (page c) then c
      else formSubmit env (c\<lparr>page := (page c)\<lparr>chatInput_value := text\<rparr>\<rparr>))"
| "step env (ClickInHistory k j) c =
     (if app_hidden (page c) then c else historyClick env k j c)"
| "step env CloseViewer c = c\<lparr>page := (page c)\<lparr>transactionView_hidden := True\<rparr>\<rparr>"
| "step env (ChooseFile file) c =
     (if app_hidden (page c) \<or> attachButton_disabled (page c) then c
      else handleFileSelect file c)"
| "step env (FileLoaded text) c = (if reads c = 0 then c else readerLoaded text c)"
| "step env FileFailed c = (if reads c = 0 then c else readerFailed c)"
| "step env RemoveFile c =
     (if filePreview (page c) = None then c else c\<lparr>page := resetFileInput (page c)\<rparr>)"
| "step env (Resolved i) c = resolved i c"
| "step env (Rejected i) c = rejected i c"
| "step env (ChunkArrived i text) c = chunkArrived i text c"
| "step env (StreamEnded i) c = streamEnded (userMessageElements env) i c"
| "step env (StreamFailed i) c = streamFailed i c"

definition run :: "env \<Rightarrow> event list \<Rightarrow> config \<Rightarrow> config" where
  "run env events c = foldl (\<lambda>c e. step env e c) c events"

text \<open>
  Modelled from the spec: the page as it is loaded. Its markup is not among the sources; the
  conversation starts in the state awaiting a profile, with an empty log, the controls
  enabled, nothing attached, and the application and the viewer hidden.
\<close>

definition initial :: config where
  "initial =
     \<lparr>page = \<lparr>chat = None, userProfile = None, uploadedFile = None, transactions = [],
               chatHistory = [], chatInput_value = [], chatInput_disabled = False,
               sendButton_disabled = False, attachButton_disabled = False, filePreview = None,
               transactionTable = [], transactionView_hidden = True,
               profileSelector_hidden = False, app_hidden = True\<rparr>,
      sends = [], requests = [], reads = 0\<rparr>"

section \<open>Notions used in the statements\<close>

subsection \<open>Parser and totals\<close>

text \<open>
  The condition under which a line after the header becomes a record, and the record it becomes.
\<close>

definition accepted :: "string \<Rightarrow> bool" where
  "accepted line =
     (trim line \<noteq> [] \<and>
      (let fields = split_on CHR '','' line
       in 3 \<le> length fields \<and> trim (fields ! 0) \<noteq> [] \<and> trim (fields ! 1) \<noteq> [] \<and>
          parseFloat (trim (fields ! 2)) \<noteq> NaN))"

definition record_of :: "string \<Rightarrow> transaction" where
  "record_of line =
     (let fields = split_on CHR '','' line
      in \<lparr>date = trim (fields ! 0), description = trim (fields ! 1),
          amount = parseFloat (trim (fields ! 2))\<rparr>)"

text \<open>The sum of a list of numbers, added from \<open>0\<close> in list order.\<close>

definition js_sum :: "jsnum list \<Rightarrow> jsnum" where
  "js_sum xs = foldl js_add (Fin 0) xs"

definition is_zero :: "jsnum \<Rightarrow> bool" where
  "is_zero x = (x = Fin 0 \<or> x = NegZero)"

text \<open>A number that is \<open>+Infinity\<close> or finite and not below zero, and the mirror image.\<close>

definition nonneg :: "jsnum \<Rightarrow> bool" where
  "nonneg x = (case x of PosInf \<Rightarrow> True | Fin r \<Rightarrow> 0 \<le> r | _ \<Rightarrow> False)"

definition nonpos :: "jsnum \<Rightarrow> bool" where
  "nonpos x = (case x of NegInf \<Rightarrow> True | NegZero \<Rightarrow> True | Fin r \<Rightarrow> r \<le> 0 | _ \<Rightarrow> False)"

text \<open>
  Rounding to two decimals: the number of hundredths nearest to \<open>x\<close> (the larger on a tie), and
  the decimal numeral of \<open>n\<close> hundredths.
\<close>

definition hundredths :: "rat \<Rightarrow> nat" where
  "hundredths x = nat \<lfloor>x * 100 + 1 / 2\<rfloor>"

definition two_decimals :: "nat \<Rightarrow> string" where
  "two_decimals n = show_nat (n div 100) @ ''.'' @ [digit (n div 10 mod 10), digit (n mod 10)]"

subsection \<open>Calls and runs\<close>

text \<open>
  A call whose frame is the last of \<open>S @ [frame]\<close> and whose placeholder is the last entry of the
  log \<open>H @ [u, placeholder]\<close>, as it is right after \<open>sendMessage\<close> and as long as nothing else
  is appended.
\<close>

fun double_asterisk :: "string \<Rightarrow> bool" where
  "double_asterisk [] = False"
| "double_asterisk (c # s) = (take 2 (c # s) = ''**'' \<or> double_asterisk s)"

definition waiting ::
  "frame list \<Rightarrow> entry list \<Rightarrow> entry \<Rightarrow> string \<Rightarrow> string \<Rightarrow> phase \<Rightarrow> config \<Rightarrow> bool" where
  "waiting S H u html full ph c =
     (sends c = S @ [\<lparr>el = Suc (length H), fullResponse = full, phase = ph\<rparr>] \<and>
      chatHistory (page c) = H @ [u, Message Model html False])"

text \<open>The three controls that \<open>setFormState\<close> switches.\<close>

definition controls_disabled :: "config \<Rightarrow> bool" where
  "controls_disabled c =
     (chatInput_disabled (page c) \<and> sendButton_disabled (page c) \<and> attachButton_disabled (page c))"

definition controls_enabled :: "config \<Rightarrow> bool" where
  "controls_enabled c =
     (\<not> chatInput_disabled (page c) \<and> \<not> sendButton_disabled (page c) \<and>
      \<not> attachButton_disabled (page c))"

text \<open>
  What a failed send leaves behind, from the configuration \<open>c\<close> in which it was started: the
  user message and the failure text at the end of the log, the controls enabled, one request
  made, and the call finished.
\<close>

definition handled_failure :: "config \<Rightarrow> string \<Rightarrow> string \<Rightarrow> config \<Rightarrow> bool" where
  "handled_failure c text prompt c' =
     (chatHistory (page c') =
        chatHistory (page c) @ [Message User text False, Message Model failureText False] \<and>
      \<not> chatInput_disabled (page c') \<and> \<not> sendButton_disabled (page c') \<and>
      \<not> attachButton_disabled (page c') \<and>
      requests c' = requests c @ [prompt] \<and>
      length (sends c') = Suc (length (sends c)) \<and>
      phase (sends c' ! length (sends c)) = Finished)"

text \<open>No session was created and no request was made.\<close>

definition no_session :: "config \<Rightarrow> bool" where
  "no_session c = (chat (page c) = None \<and> requests c = [])"

text \<open>
  The blocks of suggested prompts in the log, the prompts that \<open>renderSuggestedPrompts\<close>
  appends for a profile (none without an entry of its own in the table), the calls that have
  not finished, and the event that lets a call complete normally.
\<close>

definition isPromptBlock :: "entry \<Rightarrow> bool" where
  "isPromptBlock e = (case e of SuggestedPrompts ps \<Rightarrow> True | Message sndr text button \<Rightarrow> False)"

definition promptBlocks :: "state \<Rightarrow> nat" where
  "promptBlocks st = length (filter isPromptBlock (chatHistory st))"

definition profilePrompts :: "string option \<Rightarrow> string list" where
  "profilePrompts profile =
     (case profile of
        None \<Rightarrow> []
      | Some p \<Rightarrow> (case map_of suggestedPrompts p of None \<Rightarrow> [] | Some ps \<Rightarrow> ps))"

text \<open>The parser made no element matching \<^verbatim>\<open>.message.user\<close> of any message text of the log.\<close>

definition markup_free :: "(string \<Rightarrow> nat) \<Rightarrow> state \<Rightarrow> bool" where
  "markup_free markup st =
     list_all (\<lambda>e. case e of Message sndr html button \<Rightarrow> markup html = 0
                              | SuggestedPrompts ps \<Rightarrow> True) (chatHistory st)"

definition pendingCount :: "config \<Rightarrow> nat" where
  "pendingCount c = length (filter (\<lambda>f. phase f \<noteq> Finished) (sends c))"

definition completes :: "event \<Rightarrow> config \<Rightarrow> bool" where
  "completes e c =
     (case e of
        StreamEnded i \<Rightarrow> i < length (sends c) \<and> phase (sends c ! i) = Streaming
      | _ \<Rightarrow> False)"

definition userTurns :: "config \<Rightarrow> nat" where
  "userTurns c = userEntries (page c)"

definition blocks :: "config \<Rightarrow> nat" where
  "blocks c = promptBlocks (page c)"

text \<open>
  The invariant of the runs: there is at most one block, and while the log holds at most one
  user message, a block and an unfinished call exclude each other.
\<close>

definition once :: "config \<Rightarrow> bool" where
  "once c = (blocks c \<le> 1 \<and> (userTurns c \<le> 1 \<longrightarrow> blocks c + pendingCount c \<le> userTurns c))"

text \<open>
  The first user turn is over: the log holds a user message, and if it holds only one, no call
  is waiting any more.
\<close>

definition missed :: "config \<Rightarrow> bool" where
  "missed c = (1 \<le> userTurns c \<and> (userTurns c = 1 \<longrightarrow> pendingCount c = 0))"

subsection \<open>Concrete surroundings and runs\<close>

text \<open>
  Two environments, with and without a key, and some configurations reached from the page as
  loaded: after a completed greeting, after a file was read, while the greeting is streamed, and
  after the greeting failed.
\<close>

fun occurrences :: "string \<Rightarrow> string \<Rightarrow> nat" where
  "occurrences pat [] = 0"
| "occurrences pat (c # s) =
     (if take (length pat) (c # s) = pat then 1 else 0) + occurrences pat s"

text \<open>
  The parser of these environments counts the attribute \<^verbatim>\<open>class\<close> with the value
  \<^verbatim>\<open>message user\<close> in its two quoted spellings. On the texts of the runs below, where the
  attribute occurs only inside the start tag of an element, this is the number of elements
  that a browser creates.
\<close>

definition demo_parser :: "string \<Rightarrow> nat" where
  \<open>demo_parser html =
     occurrences ''class="message user"'' html +
     occurrences (''class='' @ [CHR 0x27] @ ''message user'' @ [CHR 0x27]) html\<close>

definition demo_env :: env where
  "demo_env = \<lparr>API_KEY = Some ''key'', numberToString = (\<lambda>r. []), formatCurrency = (\<lambda>a. []),
                userMessageElements = demo_parser\<rparr>"

definition no_key_env :: env where
  "no_key_env = \<lparr>API_KEY = None, numberToString = (\<lambda>r. []), formatCurrency = (\<lambda>a. []),
                  userMessageElements = demo_parser\<rparr>"

definition ready :: config where
  "ready = run demo_env [SelectProfile (Some ''Student''), Resolved 0, StreamEnded 0] initial"

definition with_file :: config where
  "with_file = run demo_env
     [ChooseFile (Some ''january.csv''),
      FileLoaded ''Date,Description,Amount\<newline>2024-01-01,Salary,2500\<newline>2024-01-02,Groceries,-42.50\<newline>bad,row'']
     ready"

definition with_bonus :: config where
  "with_bonus = run demo_env
     [ChooseFile (Some ''bonus.csv''),
      FileLoaded ''Date,Description,Amount\<newline>2024-01-03,Bonus,Infinity'']
     ready"

definition streaming :: config where
  "streaming = run demo_env [SelectProfile (Some ''Student''), Resolved 0] initial"

definition failed :: config where
  "failed = run demo_env [SelectProfile (Some ''Student''), Rejected 0] initial"

section \<open>Properties of the parser, the totals and the viewer\<close>

lemma split_on_not_Nil: "split_on d s \<noteq> []"
  by (induction s) (auto split: list.splits)

lemma length_split_on_pos: "1 \<le> length (split_on d s)"
  using split_on_not_Nil [of d s] by (cases "split_on d s") auto

lemma parseLines_filter:
  "parseLines ls acc = acc @ map record_of (filter accepted ls)"
  by (induction ls arbitrary: acc)
     (auto simp: accepted_def record_of_def isNaN_def Let_def)

lemma accepted_record:
  assumes "accepted l"
  shows "date (record_of l) \<noteq> [] \<and> description (record_of l) \<noteq> [] \<and> amount (record_of l) \<noteq> NaN"
  using assms by (simp add: accepted_def record_of_def Let_def)

lemma foldl_amount: "foldl (\<lambda>sum t. js_add sum (amount t)) a ts = foldl js_add a (map amount ts)"
  by (induction ts arbitrary: a) auto

lemma totalIncome_sum: "totalIncome ts = js_sum (filter gt_zero (map amount ts))"
  by (simp add: totalIncome_def js_sum_def foldl_amount filter_map comp_def)

lemma totalExpenses_sum: "totalExpenses ts = js_sum (filter lt_zero (map amount ts))"
  by (simp add: totalExpenses_def js_sum_def foldl_amount filter_map comp_def)

lemma is_zero_signs: "is_zero x \<Longrightarrow> \<not> gt_zero x \<and> \<not> lt_zero x"
  by (auto simp: is_zero_def)

lemma filter_gt_zero_drop_zero:
  "filter (\<lambda>t. gt_zero (amount t)) (filter (\<lambda>t. \<not> is_zero (amount t)) ts)
     = filter (\<lambda>t. gt_zero (amount t)) ts"
  by (induction ts) (auto dest: is_zero_signs)

lemma filter_lt_zero_drop_zero:
  "filter (\<lambda>t. lt_zero (amount t)) (filter (\<lambda>t. \<not> is_zero (amount t)) ts)
     = filter (\<lambda>t. lt_zero (amount t)) ts"
  by (induction ts) (auto dest: is_zero_signs)

lemma renderRows_map:
  "renderRows currency ts body =
     body @ map (\<lambda>t. Row (date t) (description t) (amountClass (amount t)) (currency (amount t))) ts"
  by (induction ts arbitrary: body) auto

lemma amountClass_negative: "(amountClass a = ''amount-negative'') = (\<not> ge_zero a)"
  by (simp add: amountClass_def)

lemma not_ge_zero: "a \<noteq> NaN \<Longrightarrow> (\<not> ge_zero a) = lt_zero a"
  by (cases a) auto

lemma parseCSV_filter:
  "parseCSV s = map record_of (filter accepted (tl (split_on CHR 0x0A s)))"
  by (simp add: parseCSV_def parseLines_filter drop_Suc)

lemma parseCSV_valid:
  "t \<in> set (parseCSV s) \<Longrightarrow> date t \<noteq> [] \<and> description t \<noteq> [] \<and> \<not> isNaN (amount t)"
  by (auto simp: parseCSV_filter isNaN_def dest: accepted_record)

lemma parseCSV_length: "length (parseCSV s) \<le> length (split_on CHR 0x0A s) - 1"
proof -
  have "length (parseCSV s) = length (filter accepted (tl (split_on CHR 0x0A s)))"
    by (simp only: parseCSV_filter length_map)
  also have "\<dots> \<le> length (tl (split_on CHR 0x0A s))"
    by (rule length_filter_le)
  also have "\<dots> = length (split_on CHR 0x0A s) - 1"
    by (rule length_tl)
  finally show ?thesis .
qed

lemma csv_non_finite:
  "parseCSV ''Date,Description,Amount\<newline>2024-01-03,Bonus,Infinity''
     = [\<lparr>date = ''2024-01-03'', description = ''Bonus'', amount = PosInf\<rparr>]"
  by code_simp

lemma csv_example:
  "parseCSV ''Date,Description,Amount\<newline>2024-01-01,Salary,2500\<newline>2024-01-02,Groceries,-42.50\<newline>bad,row''
     = [\<lparr>date = ''2024-01-01'', description = ''Salary'', amount = Fin 2500\<rparr>,
        \<lparr>date = ''2024-01-02'', description = ''Groceries'', amount = Fin (- 85 / 2)\<rparr>]"
  by code_simp

lemma csv_zero_rows:
  "parseCSV ''Date,Description,Amount\<newline>2024-01-04,Refund,0\<newline>2024-01-05,Fee,-5''
     = [\<lparr>date = ''2024-01-04'', description = ''Refund'', amount = Fin 0\<rparr>,
        \<lparr>date = ''2024-01-05'', description = ''Fee'', amount = Fin (- 5)\<rparr>]"
  by code_simp

text \<open>
  C1, as the parser has it. The records of \<open>parseCSV\<close> are, in input order, the records of the
  lines after the header that are not blank, split on commas into at least three fields, have
  a first and a second field that trim to a non-empty text, and a third field that, trimmed,
  \<^verbatim>\<open>parseFloat\<close> reads as a number other than \<open>NaN\<close>; all other lines are dropped. So the
  output is never longer than the number of lines minus one, and every record has a non-empty
  date, a non-empty description and an amount that is not \<open>NaN\<close>. The amount may be an
  infinity.
\<close>

theorem parseCSV_records:
  "parseCSV s = map record_of (filter accepted (tl (split_on CHR 0x0A s))) \<and>
   length (parseCSV s) \<le> length (split_on CHR 0x0A s) - 1 \<and>
   (\<forall>t \<in> set (parseCSV s). date t \<noteq> [] \<and> description t \<noteq> [] \<and> \<not> isNaN (amount t))"
  using parseCSV_filter [of s] parseCSV_length [of s] parseCSV_valid [of _ s] by blast

text \<open>The theorem at a file with a zero and a negative amount.\<close>

theorem parseCSV_records_witness:
  "parseCSV ''Date,Description,Amount\<newline>2024-01-04,Refund,0\<newline>2024-01-05,Fee,-5''
     = [\<lparr>date = ''2024-01-04'', description = ''Refund'', amount = Fin 0\<rparr>,
        \<lparr>date = ''2024-01-05'', description = ''Fee'', amount = Fin (- 5)\<rparr>] \<and>
   date \<lparr>date = ''2024-01-04'', description = ''Refund'', amount = Fin 0\<rparr> \<noteq> [] \<and>
   description \<lparr>date = ''2024-01-04'', description = ''Refund'', amount = Fin 0\<rparr> \<noteq> [] \<and>
   \<not> isNaN (amount \<lparr>date = ''2024-01-04'', description = ''Refund'', amount = Fin 0\<rparr>)"
proof -
  let ?csv = "''Date,Description,Amount\<newline>2024-01-04,Refund,0\<newline>2024-01-05,Fee,-5''"
  let ?r = "\<lparr>date = ''2024-01-04'', description = ''Refund'', amount = Fin 0\<rparr>"
  have "?r \<in> set (parseCSV ?csv)"
    by (simp add: csv_zero_rows)
  moreover have "\<forall>t \<in> set (parseCSV ?csv). date t \<noteq> [] \<and> description t \<noteq> [] \<and> \<not> isNaN (amount t)"
    using parseCSV_records [of ?csv] by blast
  ultimately have "date ?r \<noteq> [] \<and> description ?r \<noteq> [] \<and> \<not> isNaN (amount ?r)"
    by blast
  then show ?thesis
    using csv_zero_rows by simp
qed

text \<open>
  C1, as it is worded, asks for a finite amount. The line \<^verbatim>\<open>2024-01-03,Bonus,Infinity\<close>
  becomes a record whose amount is not finite.
\<close>

theorem parseCSV_finite_counterexample:
  "parseCSV ''Date,Description,Amount\<newline>2024-01-03,Bonus,Infinity''
     = [\<lparr>date = ''2024-01-03'', description = ''Bonus'', amount = PosInf\<rparr>] \<and>
   \<not> is_finite (amount \<lparr>date = ''2024-01-03'', description = ''Bonus'', amount = PosInf\<rparr>)"
  using csv_non_finite by simp

text \<open>
  C10. In the transaction viewer, the row of a record carries the class chosen by
  \<^verbatim>\<open>amount >= 0\<close>: a record whose amount is zero gets \<^verbatim>\<open>amount-positive\<close>, and the rows with
  \<^verbatim>\<open>amount-negative\<close> are those of the amounts below zero. The held records never have the
  amount \<open>NaN\<close>.
\<close>

theorem zero_amount_class:
  assumes "\<forall>t \<in> set ts. \<not> isNaN (amount t)" and "i < length ts"
  shows "renderTransactionsTable currency ts ! i
           = Row (date (ts ! i)) (description (ts ! i)) (amountClass (amount (ts ! i)))
               (currency (amount (ts ! i))) \<and>
         (is_zero (amount (ts ! i)) \<longrightarrow> amountClass (amount (ts ! i)) = ''amount-positive'') \<and>
         ((amountClass (amount (ts ! i)) = ''amount-negative'') = lt_zero (amount (ts ! i)))"
proof -
  from assms have "amount (ts ! i) \<noteq> NaN"
    by (auto simp: isNaN_def)
  then have "(amountClass (amount (ts ! i)) = ''amount-negative'') = lt_zero (amount (ts ! i))"
    using amountClass_negative [of "amount (ts ! i)"] not_ge_zero [of "amount (ts ! i)"] by blast
  moreover have "is_zero (amount (ts ! i)) \<longrightarrow> amountClass (amount (ts ! i)) = ''amount-positive''"
    by (auto simp: is_zero_def amountClass_def)
  moreover from assms(2) have "renderTransactionsTable currency ts ! i
           = Row (date (ts ! i)) (description (ts ! i)) (amountClass (amount (ts ! i)))
               (currency (amount (ts ! i)))"
    by (auto simp: renderTransactionsTable_def renderRows_map)
  ultimately show ?thesis by blast
qed

text \<open>The theorem at the first row of a file whose first amount is zero.\<close>

theorem zero_amount_class_witness:
  "renderTransactionsTable (\<lambda>a. ''$'')
     (parseCSV ''Date,Description,Amount\<newline>2024-01-04,Refund,0\<newline>2024-01-05,Fee,-5'') ! 0
     = Row ''2024-01-04'' ''Refund'' ''amount-positive'' ''$'' \<and>
   is_zero (Fin 0) \<and> \<not> lt_zero (Fin 0)"
proof -
  let ?ts = "parseCSV ''Date,Description,Amount\<newline>2024-01-04,Refund,0\<newline>2024-01-05,Fee,-5''"
  have a: "\<forall>t \<in> set ?ts. \<not> isNaN (amount t)"
    by (simp add: csv_zero_rows isNaN_def)
  have b: "0 < length ?ts"
    by (simp add: csv_zero_rows)
  have z: "is_zero (amount (?ts ! 0))"
    by (simp add: csv_zero_rows is_zero_def)
  from zero_amount_class [OF a b, of "\<lambda>a. ''$''"] z
  have "renderTransactionsTable (\<lambda>a. ''$'') ?ts ! 0
          = Row (date (?ts ! 0)) (description (?ts ! 0)) ''amount-positive'' ''$''"
    by simp
  then show ?thesis
    by (simp add: csv_zero_rows is_zero_def)
qed

section \<open>Properties of the formatting\<close>

lemma take2_stars: "(take 2 (c # s) = ''**'') = (c = CHR ''*'' \<and> take 1 s = ''*'')"
  by (cases s) auto

lemma replace_strong_plain:
  "CHR ''*'' \<notin> set a \<Longrightarrow> replace_strong (a @ s) = a @ replace_strong s"
  by (induction a) (auto simp: take2_stars simp del: take_Suc_Cons)

lemma find_close_nearest:
  "\<forall>x \<in> set b. \<not> isLineTerminator x \<Longrightarrow> \<not> double_asterisk (b @ ''*'') \<Longrightarrow>
   find_close (b @ ''**'' @ r) = Some (b, r)"
proof (induction b)
  case Nil
  show ?case by simp
next
  case (Cons c b)
  have "take 2 ((c # b) @ ''**'' @ r) \<noteq> ''**''"
    using Cons.prems(2) by (cases b) auto
  moreover have "find_close (b @ ''**'' @ r) = Some (b, r)"
    using Cons by simp
  ultimately show ?case using Cons.prems(1) by simp
qed

lemma find_close_open:
  "\<not> double_asterisk (takeWhile (\<lambda>x. \<not> isLineTerminator x) t) \<Longrightarrow> find_close t = None"
proof (induction t)
  case Nil
  show ?case by simp
next
  case (Cons c t)
  show ?case
  proof (cases "isLineTerminator c")
    case True
    then have "take 2 (c # t) \<noteq> ''**''" by (auto simp: isLineTerminator_def take2_stars)
    with True show ?thesis by simp
  next
    case False
    with Cons.prems have d: "\<not> double_asterisk (c # takeWhile (\<lambda>x. \<not> isLineTerminator x) t)"
      by simp
    have "take 2 (c # t) \<noteq> ''**''"
    proof
      assume "take 2 (c # t) = ''**''"
      then obtain t' where "c = CHR ''*''" "t = CHR ''*'' # t'"
        by (cases t) auto
      with d show False by (simp add: isLineTerminator_def)
    qed
    moreover have "find_close t = None" using Cons.IH d by simp
    ultimately show ?thesis using False by simp
  qed
qed

lemma replace_newlines_append:
  "replace_newlines (u @ v) = replace_newlines u @ replace_newlines v"
  by (simp add: replace_newlines_def)

lemma replace_newlines_Cons:
  "replace_newlines (c # s) = (if c = CHR 0x0A then ''<br>'' else [c]) @ replace_newlines s"
  by (simp add: replace_newlines_def)

lemma replace_newlines_same:
  "\<forall>x \<in> set b. \<not> isLineTerminator x \<Longrightarrow> replace_newlines b = b"
  by (induction b) (auto simp: replace_newlines_def isLineTerminator_def)

lemma formatText_Nil: "formatText [] = []"
  by (simp add: formatText_def replace_newlines_def)

lemma formatText_char:
  assumes "take 2 (x # r) \<noteq> ''**''"
  shows "formatText (x # r) = (if x = CHR 0x0A then ''<br>'' else [x]) @ formatText r"
proof -
  have "replace_strong (x # r) = x # replace_strong r"
    by (subst replace_strong.simps) (simp only: assms if_False)
  then show ?thesis
    by (simp add: formatText_def replace_newlines_Cons)
qed

lemma formatText_nearest:
  assumes "\<forall>x \<in> set b. \<not> isLineTerminator x" and "\<not> double_asterisk (b @ ''*'')"
  shows "formatText (''**'' @ b @ ''**'' @ r) = ''<strong>'' @ b @ ''</strong>'' @ formatText r"
proof -
  have "replace_strong (''**'' @ b @ ''**'' @ r)
          = ''<strong>'' @ b @ ''</strong>'' @ replace_strong r"
    using find_close_nearest [OF assms, of r] by simp
  then show ?thesis
    using replace_newlines_same [OF assms(1)]
    by (simp add: formatText_def replace_newlines_append replace_newlines_Cons)
qed

lemma formatText_open:
  assumes "\<not> double_asterisk (takeWhile (\<lambda>x. \<not> isLineTerminator x) t)"
  shows "formatText (''**'' @ t) = ''*'' @ formatText (''*'' @ t)"
proof -
  have "replace_strong (''**'' @ t) = CHR ''*'' # replace_strong (CHR ''*'' # t)"
    using find_close_open [OF assms] by simp
  then show ?thesis
    by (simp add: formatText_def replace_newlines_Cons)
qed

lemma find_close_broken:
  "CHR ''*'' \<notin> set b \<Longrightarrow> find_close (b @ CHR 0x0A # r) = None"
  by (induction b) (auto simp: isLineTerminator_def)

lemma replace_strong_stars: "replace_strong ''**'' = ''**''"
  by simp

lemma replace_strong_broken:
  assumes "CHR ''*'' \<notin> set b" and "CHR ''*'' \<notin> set b'"
  shows "replace_strong (''**'' @ b @ CHR 0x0A # b' @ ''**'') = ''**'' @ b @ CHR 0x0A # b' @ ''**''"
proof -
  have n: "find_close (b @ CHR 0x0A # b' @ ''**'') = None"
    using assms(1) by (rule find_close_broken)
  have s: "take 2 (CHR ''*'' # b @ CHR 0x0A # b' @ ''**'') \<noteq> ''**''"
    using assms(1) by (cases b) auto
  have "replace_strong (''**'' @ b @ CHR 0x0A # b' @ ''**'')
          = CHR ''*'' # replace_strong (CHR ''*'' # b @ CHR 0x0A # b' @ ''**'')"
    using n by simp
  also have "\<dots> = ''**'' @ replace_strong (b @ CHR 0x0A # b' @ ''**'')"
    using s by simp
  also have "replace_strong (b @ CHR 0x0A # b' @ ''**'') = b @ replace_strong (CHR 0x0A # b' @ ''**'')"
    using assms(1) by (rule replace_strong_plain)
  also have "replace_strong (CHR 0x0A # b' @ ''**'') = CHR 0x0A # replace_strong (b' @ ''**'')"
    by simp
  also have "replace_strong (b' @ ''**'') = b' @ replace_strong ''**''"
    using assms(2) by (rule replace_strong_plain)
  finally show ?thesis
    by (simp only: replace_strong_stars append_assoc append_Cons append_Nil)
qed

lemma formatText_broken:
  assumes "CHR ''*'' \<notin> set b" and "CHR ''*'' \<notin> set b'"
  shows "formatText (''**'' @ b @ CHR 0x0A # b' @ ''**'')
           = ''**'' @ replace_newlines b @ ''<br>'' @ replace_newlines b' @ ''**''"
  unfolding formatText_def replace_strong_broken [OF assms]
  by (simp add: replace_newlines_append replace_newlines_Cons) (simp add: replace_newlines_def)

section \<open>Properties of a call of sendMessage\<close>

lemma update_last_of_two: "(xs @ [a, b])[Suc (length xs) := v] = xs @ [a, v]"
  by (simp add: list_update_append)

lemma nth_last_of_two: "(xs @ [a, b]) ! Suc (length xs) = b"
  by (simp add: nth_append)

lemma sendMessage_blank: "trim text = [] \<Longrightarrow> sendMessage sci text c = c"
  by (simp add: sendMessage_def)

lemma sendMessage_session:
  assumes "trim text \<noteq> []" and "chat (page c) = Some s"
  shows "sendMessage sci text c =
    c\<lparr>page := (page c)\<lparr>chatHistory := chatHistory (page c) @
                   [Message User text False, Message Model loadingIndicators False],
                 chatInput_value := [], chatInput_disabled := True,
                 sendButton_disabled := True, attachButton_disabled := True\<rparr>,
      sends := sends c @ [\<lparr>el = Suc (length (chatHistory (page c))), fullResponse = [],
                           phase = Requesting\<rparr>],
      requests := requests c @ [promptFor sci (page c) text]\<rparr>"
  using assms by (simp add: sendMessage_def addMessage_def setFormState_def Let_def promptFor_def)

lemma sendMessage_no_session:
  assumes "trim text \<noteq> []" and "chat (page c) = None"
  shows "sendMessage sci text c =
    c\<lparr>page := (page c)\<lparr>chatHistory := chatHistory (page c) @
                   [Message User text False, Message Model failureText False],
                 chatInput_value := [], chatInput_disabled := False,
                 sendButton_disabled := False, attachButton_disabled := False\<rparr>\<rparr>"
  using assms
  by (simp add: sendMessage_def addMessage_def setFormState_def Let_def catch_finally_def
      set_innerHTML_def nth_append update_last_of_two)

lemma waiting_sendMessage:
  assumes "trim text \<noteq> []" and "chat (page c) = Some s"
  shows "waiting (sends c) (chatHistory (page c)) (Message User text False) loadingIndicators []
           Requesting (sendMessage sci text c)"
  using assms by (simp add: sendMessage_session waiting_def)

lemma set_innerHTML_last:
  "chatHistory st = H @ [u, Message Model html b] \<Longrightarrow>
   set_innerHTML (Suc (length H)) t st = st\<lparr>chatHistory := H @ [u, Message Model t False]\<rparr>"
  by (simp add: set_innerHTML_def nth_last_of_two update_last_of_two)

lemma resolved_waiting:
  assumes "waiting S H u html full Requesting c"
  shows "resolved (length S) c =
     c\<lparr>page := (page c)\<lparr>chatHistory := H @ [u, Message Model [] False]\<rparr>,
       sends := S @ [\<lparr>el = Suc (length H), fullResponse = [], phase = Streaming\<rparr>]\<rparr>"
proof -
  from assms have h: "chatHistory (page c) = H @ [u, Message Model html False]"
    by (simp add: waiting_def)
  show ?thesis
    using assms by (simp add: waiting_def resolved_def set_innerHTML_last [OF h] Let_def)
qed

lemma chunkArrived_waiting:
  assumes "waiting S H u html full Streaming c"
  shows "chunkArrived (length S) text c =
     c\<lparr>page := (page c)\<lparr>chatHistory := H @ [u, Message Model (formatText (full @ text)) False]\<rparr>,
       sends := S @ [\<lparr>el = Suc (length H), fullResponse = full @ text, phase = Streaming\<rparr>]\<rparr>"
proof -
  from assms have h: "chatHistory (page c) = H @ [u, Message Model html False]"
    by (simp add: waiting_def)
  show ?thesis
    using assms by (simp add: waiting_def chunkArrived_def set_innerHTML_last [OF h] Let_def)
qed

lemma rejected_waiting:
  assumes "waiting S H u html full Requesting c"
  shows "rejected (length S) c =
     c\<lparr>page := (page c)\<lparr>chatHistory := H @ [u, Message Model failureText False],
                 chatInput_disabled := False, sendButton_disabled := False,
                 attachButton_disabled := False\<rparr>,
       sends := S @ [\<lparr>el = Suc (length H), fullResponse = full, phase = Finished\<rparr>]\<rparr>"
proof -
  from assms have h: "chatHistory (page c) = H @ [u, Message Model html False]"
    by (simp add: waiting_def)
  show ?thesis
    using assms
    by (simp add: waiting_def rejected_def catch_finally_def setFormState_def
        set_innerHTML_last [OF h] Let_def)
qed

lemma streamFailed_waiting:
  assumes "waiting S H u html full Streaming c"
  shows "streamFailed (length S) c =
     c\<lparr>page := (page c)\<lparr>chatHistory := H @ [u, Message Model failureText False],
                 chatInput_disabled := False, sendButton_disabled := False,
                 attachButton_disabled := False\<rparr>,
       sends := S @ [\<lparr>el = Suc (length H), fullResponse = full, phase = Finished\<rparr>]\<rparr>"
proof -
  from assms have h: "chatHistory (page c) = H @ [u, Message Model html False]"
    by (simp add: waiting_def)
  show ?thesis
    using assms
    by (simp add: waiting_def streamFailed_def catch_finally_def setFormState_def
        set_innerHTML_last [OF h] Let_def)
qed

lemma run_Nil: "run env [] c = c"
  by (simp add: run_def)

lemma run_Cons: "run env (e # es) c = run env es (step env e c)"
  by (simp add: run_def)

lemma run_append: "run env (es @ fs) c = run env fs (run env es c)"
  by (simp add: run_def)

lemma run_chunks:
  assumes "waiting S H u html full Streaming c"
  shows "run env (map (ChunkArrived (length S)) (ch # cs)) c =
     c\<lparr>page := (page c)\<lparr>chatHistory :=
                   H @ [u, Message Model (formatText (full @ concat (ch # cs))) False]\<rparr>,
       sends := S @ [\<lparr>el = Suc (length H), fullResponse = full @ concat (ch # cs),
                       phase = Streaming\<rparr>]\<rparr>"
  using assms
proof (induction cs arbitrary: c html full ch)
  case Nil
  then show ?case by (simp add: chunkArrived_waiting run_Cons run_Nil)
next
  case (Cons d cs)
  let ?c1 = "chunkArrived (length S) ch c"
  have w: "waiting S H u (formatText (full @ ch)) (full @ ch) Streaming ?c1"
    using Cons.prems by (simp add: chunkArrived_waiting) (simp add: waiting_def)
  have "run env (map (ChunkArrived (length S)) (ch # d # cs)) c
          = run env (map (ChunkArrived (length S)) (d # cs)) ?c1"
    by (simp add: run_def)
  also have "\<dots> = ?c1\<lparr>page := (page ?c1)\<lparr>chatHistory :=
                   H @ [u, Message Model (formatText ((full @ ch) @ concat (d # cs))) False]\<rparr>,
       sends := S @ [\<lparr>el = Suc (length H), fullResponse = (full @ ch) @ concat (d # cs),
                       phase = Streaming\<rparr>]\<rparr>"
    by (rule Cons.IH [OF w])
  finally show ?case
    using Cons.prems by (simp add: chunkArrived_waiting)
qed

lemma streamEnded_waiting:
  assumes "waiting S H u html full Streaming c"
  shows "streamEnded m (length S) c =
     c\<lparr>page := (case (if userMessageCount m (page c) = 1 then renderSuggestedPrompts (page c)
                        else Inr (page c)) of
                    Inr st' \<Rightarrow> setFormState False st'
                  | Inl err \<Rightarrow> catch_finally (Suc (length H)) (page c)),
       sends := S @ [\<lparr>el = Suc (length H), fullResponse = full, phase = Finished\<rparr>]\<rparr>"
  using assms by (auto simp: waiting_def streamEnded_def Let_def split: sum.splits)

lemma finished_ignores:
  assumes "i < length (sends c)" and "phase (sends c ! i) = Finished"
  shows "resolved i c = c" and "rejected i c = c" and "chunkArrived i t c = c"
    and "streamEnded m i c = c" and "streamFailed i c = c"
  using assms
  by (simp_all add: resolved_def rejected_def chunkArrived_def streamEnded_def streamFailed_def)

lemma rejected_handled:
  assumes "trim text \<noteq> []" and "chat (page c) = Some s"
  shows "handled_failure c text (promptFor sci (page c) text)
           (run env [Rejected (length (sends c))] (sendMessage sci text c))"
proof -
  let ?c1 = "sendMessage sci text c"
  have w: "waiting (sends c) (chatHistory (page c)) (Message User text False) loadingIndicators []
           Requesting ?c1"
    using assms by (rule waiting_sendMessage)
  show ?thesis
    by (simp add: run_Cons run_Nil rejected_waiting [OF w] handled_failure_def)
       (simp add: sendMessage_session [OF assms])
qed

lemma streamFailed_handled:
  assumes "trim text \<noteq> []" and "chat (page c) = Some s"
  shows "handled_failure c text (promptFor sci (page c) text)
           (run env (Resolved (length (sends c)) # map (ChunkArrived (length (sends c))) cs
                      @ [StreamFailed (length (sends c))])
              (sendMessage sci text c))"
proof -
  let ?i = "length (sends c)"
  let ?H = "chatHistory (page c)"
  let ?u = "Message User text False"
  let ?c1 = "sendMessage sci text c"
  let ?c2 = "resolved ?i ?c1"
  have w1: "waiting (sends c) ?H ?u loadingIndicators [] Requesting ?c1"
    using assms by (rule waiting_sendMessage)
  have w2: "waiting (sends c) ?H ?u [] [] Streaming ?c2"
    by (simp add: resolved_waiting [OF w1]) (simp add: waiting_def)
  have r2: "requests ?c2 = requests c @ [promptFor sci (page c) text]"
    by (simp add: resolved_waiting [OF w1]) (simp add: sendMessage_session [OF assms])
  show ?thesis
  proof (cases cs)
    case Nil
    then show ?thesis
      using r2 by (simp add: run_Cons run_Nil streamFailed_waiting [OF w2] handled_failure_def)
  next
    case (Cons ch cs')
    define c3 where "c3 = run env (map (ChunkArrived ?i) (ch # cs')) ?c2"
    have w3: "waiting (sends c) ?H ?u (formatText (concat (ch # cs'))) (concat (ch # cs'))
                Streaming c3"
      unfolding c3_def using run_chunks [OF w2, of env ch cs'] by (simp add: waiting_def)
    have r3: "requests c3 = requests c @ [promptFor sci (page c) text]"
      unfolding c3_def using run_chunks [OF w2, of env ch cs'] r2 by simp
    have eq: "run env (Resolved ?i # map (ChunkArrived ?i) cs @ [StreamFailed ?i]) ?c1
            = streamFailed ?i c3"
      unfolding c3_def using Cons by (simp add: run_def)
    show ?thesis
      unfolding eq using r3 by (simp add: streamFailed_waiting [OF w3] handled_failure_def)
  qed
qed

section \<open>Properties of the runs\<close>

lemma filter_update_same:
  "i < length xs \<Longrightarrow> P y = P (xs ! i) \<Longrightarrow>
   length (filter P (xs[i := y])) = length (filter P xs)"
  by (induction xs arbitrary: i) (auto split: nat.splits)

lemma filter_update_drop:
  "i < length xs \<Longrightarrow> P (xs ! i) \<Longrightarrow> \<not> P y \<Longrightarrow>
   Suc (length (filter P (xs[i := y]))) = length (filter P xs)"
  by (induction xs arbitrary: i) (auto split: nat.splits simp: filter_update_same)

lemma set_innerHTML_other [simp]:
  "chat (set_innerHTML e t st) = chat st"
  "userProfile (set_innerHTML e t st) = userProfile st"
  "length (chatHistory (set_innerHTML e t st)) = length (chatHistory st)"
  by (auto simp: set_innerHTML_def split: entry.splits)

lemma set_innerHTML_counts [simp]:
  "userEntries (set_innerHTML e t st) = userEntries st"
  "promptBlocks (set_innerHTML e t st) = promptBlocks st"
  by (auto simp: set_innerHTML_def userEntries_def promptBlocks_def isUserMessage_def
      isPromptBlock_def filter_update_same split: entry.splits)

lemma setFormState_other [simp]:
  "chat (setFormState b st) = chat st"
  "userProfile (setFormState b st) = userProfile st"
  "chatHistory (setFormState b st) = chatHistory st"
  "userEntries (setFormState b st) = userEntries st"
  "promptBlocks (setFormState b st) = promptBlocks st"
  by (simp_all add: setFormState_def userEntries_def promptBlocks_def)

lemma catch_finally_other [simp]:
  "chat (catch_finally e st) = chat st"
  "userProfile (catch_finally e st) = userProfile st"
  "userEntries (catch_finally e st) = userEntries st"
  "promptBlocks (catch_finally e st) = promptBlocks st"
  by (simp_all add: catch_finally_def)

lemma counts_append_model:
  "chatHistory st' = chatHistory st @ [Message Model t b] \<Longrightarrow>
   userEntries st' = userEntries st \<and> promptBlocks st' = promptBlocks st"
  by (simp add: userEntries_def promptBlocks_def isUserMessage_def isPromptBlock_def)

lemma renderSuggestedPrompts_cases:
  "(profilePrompts (userProfile st) \<noteq> [] \<and>
      renderSuggestedPrompts st =
        Inr (st\<lparr>chatHistory := chatHistory st @ [SuggestedPrompts (profilePrompts (userProfile st))]\<rparr>))
   \<or> (profilePrompts (userProfile st) = [] \<and>
      (renderSuggestedPrompts st = Inr st \<or> renderSuggestedPrompts st = Inl TypeError))"
  by (auto simp: renderSuggestedPrompts_def profilePrompts_def split: option.splits)

lemma sendMessage_measures:
  "userTurns (sendMessage sci text c) = userTurns c + (if trim text = [] then 0 else 1) \<and>
   blocks (sendMessage sci text c) = blocks c \<and>
   pendingCount (sendMessage sci text c) \<le> pendingCount c + (if trim text = [] then 0 else 1) \<and>
   chat (page (sendMessage sci text c)) = chat (page c) \<and>
   userProfile (page (sendMessage sci text c)) = userProfile (page c)"
  by (auto simp: sendMessage_def userTurns_def blocks_def pendingCount_def addMessage_def Let_def
      userEntries_def promptBlocks_def isUserMessage_def isPromptBlock_def 
      setFormState_def catch_finally_def set_innerHTML_def nth_append list_update_append
      split: option.splits)

lemma resolved_measures:
  "userTurns (resolved i c) = userTurns c \<and> blocks (resolved i c) = blocks c \<and> pendingCount (resolved i c) = pendingCount c
   \<and> chat (page (resolved i c)) = chat (page c)
   \<and> userProfile (page (resolved i c)) = userProfile (page c)"
  by (auto simp: resolved_def userTurns_def blocks_def pendingCount_def Let_def filter_update_same)

lemma chunkArrived_measures:
  "userTurns (chunkArrived i t c) = userTurns c \<and> blocks (chunkArrived i t c) = blocks c
   \<and> pendingCount (chunkArrived i t c) = pendingCount c
   \<and> chat (page (chunkArrived i t c)) = chat (page c)
   \<and> userProfile (page (chunkArrived i t c)) = userProfile (page c)"
  by (auto simp: chunkArrived_def userTurns_def blocks_def pendingCount_def Let_def filter_update_same)

lemma rejected_measures:
  "userTurns (rejected i c) = userTurns c \<and> blocks (rejected i c) = blocks c \<and> pendingCount (rejected i c) \<le> pendingCount c
   \<and> chat (page (rejected i c)) = chat (page c)
   \<and> userProfile (page (rejected i c)) = userProfile (page c)"
  using filter_update_drop [of i "sends c" "\<lambda>f. phase f \<noteq> Finished" "(sends c ! i)\<lparr>phase := Finished\<rparr>"]
  by (auto simp: rejected_def userTurns_def blocks_def pendingCount_def Let_def)

lemma streamFailed_measures:
  "userTurns (streamFailed i c) = userTurns c \<and> blocks (streamFailed i c) = blocks c
   \<and> pendingCount (streamFailed i c) \<le> pendingCount c
   \<and> chat (page (streamFailed i c)) = chat (page c)
   \<and> userProfile (page (streamFailed i c)) = userProfile (page c)"
  using filter_update_drop [of i "sends c" "\<lambda>f. phase f \<noteq> Finished" "(sends c ! i)\<lparr>phase := Finished\<rparr>"]
  by (auto simp: streamFailed_def userTurns_def blocks_def pendingCount_def Let_def)

lemma streamEnded_idle:
  "\<not> (i < length (sends c) \<and> phase (sends c ! i) = Streaming) \<Longrightarrow> streamEnded m i c = c"
  by (auto simp: streamEnded_def)

lemma streamEnded_measures:
  assumes "i < length (sends c)" and "phase (sends c ! i) = Streaming"
  shows "userTurns (streamEnded m i c) = userTurns c"
    and "Suc (pendingCount (streamEnded m i c)) = pendingCount c"
    and "chat (page (streamEnded m i c)) = chat (page c)"
    and "userProfile (page (streamEnded m i c)) = userProfile (page c)"
    and "userMessageCount m (page c) = 1 \<and> profilePrompts (userProfile (page c)) \<noteq> [] \<Longrightarrow>
           chatHistory (page (streamEnded m i c)) =
             chatHistory (page c) @ [SuggestedPrompts (profilePrompts (userProfile (page c)))]"
    and "\<not> (userMessageCount m (page c) = 1 \<and> profilePrompts (userProfile (page c)) \<noteq> []) \<Longrightarrow>
           blocks (streamEnded m i c) = blocks c"
proof -
  have p: "Suc (length (filter (\<lambda>f. phase f \<noteq> Finished) ((sends c)[i := (sends c ! i)\<lparr>phase := Finished\<rparr>])))
            = length (filter (\<lambda>f. phase f \<noteq> Finished) (sends c))"
    using assms by (intro filter_update_drop) auto
  show "Suc (pendingCount (streamEnded m i c)) = pendingCount c"
    using assms p by (simp add: streamEnded_def pendingCount_def Let_def)
  note r = renderSuggestedPrompts_cases [of "page c"]
  show "userTurns (streamEnded m i c) = userTurns c"
    using assms r
    by (auto simp: streamEnded_def userTurns_def Let_def userEntries_def isUserMessage_def
        setFormState_def split: sum.splits) (simp_all add: userEntries_def [symmetric])
  show "chat (page (streamEnded m i c)) = chat (page c)"
    using assms r by (auto simp: streamEnded_def Let_def split: sum.splits)
  show "userProfile (page (streamEnded m i c)) = userProfile (page c)"
    using assms r by (auto simp: streamEnded_def Let_def split: sum.splits)
  show "userMessageCount m (page c) = 1 \<and> profilePrompts (userProfile (page c)) \<noteq> [] \<Longrightarrow>
           chatHistory (page (streamEnded m i c)) =
             chatHistory (page c) @ [SuggestedPrompts (profilePrompts (userProfile (page c)))]"
    using assms r by (auto simp: streamEnded_def userTurns_def Let_def split: sum.splits)
  show "\<not> (userMessageCount m (page c) = 1 \<and> profilePrompts (userProfile (page c)) \<noteq> []) \<Longrightarrow>
           blocks (streamEnded m i c) = blocks c"
    using assms r by (auto simp: streamEnded_def userTurns_def blocks_def Let_def split: sum.splits)
qed

lemma not_blank: "\<not> isWhiteSpace ch \<Longrightarrow> trim (ch # s) \<noteq> []"
  by (simp add: trim_def dropWhile_append)

lemma greeting_not_blank: "trim (''Hi! My profile is: '' @ p) \<noteq> []"
  by (simp add: not_blank isWhiteSpace_def)

lemma initializeChat_measures:
  "userEntries (initializeChat env st) = userEntries st \<and>
   promptBlocks (initializeChat env st) = promptBlocks st"
  by (simp add: initializeChat_def addMessage_def userEntries_def promptBlocks_def
      isUserMessage_def isPromptBlock_def)

lemma profileClick_measures:
  "userTurns c \<le> userTurns (profileClick env tag c) \<and> blocks (profileClick env tag c) = blocks c \<and>
   pendingCount (profileClick env tag c) + userTurns c \<le> pendingCount c + userTurns (profileClick env tag c)"
proof (cases "tag = None \<or> tag = Some []")
  case True
  then show ?thesis
    by (auto simp: profileClick_def userTurns_def blocks_def pendingCount_def userEntries_def
        promptBlocks_def)
next
  case False
  then obtain p where p: "tag = Some p" "p \<noteq> []" by auto
  let ?c0 = "c\<lparr>page := initializeChat env ((page c)\<lparr>userProfile := Some p,
                profileSelector_hidden := True, app_hidden := False\<rparr>)\<rparr>"
  have e: "profileClick env tag c
             = sendMessage (numberToString env) (''Hi! My profile is: '' @ p) ?c0"
    using p by (simp add: profileClick_def Let_def)
  have m0: "userTurns ?c0 = userTurns c \<and> blocks ?c0 = blocks c \<and> pendingCount ?c0 = pendingCount c"
    using initializeChat_measures [of env "(page c)\<lparr>userProfile := Some p,
                profileSelector_hidden := True, app_hidden := False\<rparr>"]
    by (simp add: userTurns_def blocks_def pendingCount_def userEntries_def promptBlocks_def)
  show ?thesis
    unfolding e
    using sendMessage_measures [of "numberToString env" "''Hi! My profile is: '' @ p" ?c0]
      greeting_not_blank [of p] m0
    by simp
qed

lemma formSubmit_measures:
  "userTurns c \<le> userTurns (formSubmit env (c\<lparr>page := (page c)\<lparr>chatInput_value := v\<rparr>\<rparr>)) \<and>
   blocks (formSubmit env (c\<lparr>page := (page c)\<lparr>chatInput_value := v\<rparr>\<rparr>)) = blocks c \<and>
   pendingCount (formSubmit env (c\<lparr>page := (page c)\<lparr>chatInput_value := v\<rparr>\<rparr>)) + userTurns c
     \<le> pendingCount c + userTurns (formSubmit env (c\<lparr>page := (page c)\<lparr>chatInput_value := v\<rparr>\<rparr>))"
proof -
  let ?c0 = "c\<lparr>page := (page c)\<lparr>chatInput_value := v\<rparr>\<rparr>"
  have m0: "userTurns ?c0 = userTurns c \<and> blocks ?c0 = blocks c \<and> pendingCount ?c0 = pendingCount c"
    by (simp add: userTurns_def blocks_def pendingCount_def userEntries_def promptBlocks_def)
  show ?thesis
    unfolding formSubmit_def
    using sendMessage_measures [of "numberToString env" "chatInput_value (page ?c0)" ?c0] m0
    by (simp split: if_splits)
qed

lemma historyClick_measures:
  "userTurns c \<le> userTurns (historyClick env k j c) \<and> blocks (historyClick env k j c) = blocks c \<and>
   pendingCount (historyClick env k j c) + userTurns c \<le> pendingCount c + userTurns (historyClick env k j c)"
proof (cases "k < length (chatHistory (page c))")
  case False
  then show ?thesis by (simp add: historyClick_def)
next
  case True
  show ?thesis
  proof (cases "chatHistory (page c) ! k")
    case (Message sndr html button)
    with True show ?thesis
      by (simp add: historyClick_def userTurns_def blocks_def pendingCount_def userEntries_def
          promptBlocks_def)
  next
    case (SuggestedPrompts ps)
    with True show ?thesis
      using formSubmit_measures [of c env "ps ! j"]
      by (simp add: historyClick_def)
  qed
qed

lemma addTransactionAnalysisMessage_measures:
  "userEntries (addTransactionAnalysisMessage st) = userEntries st \<and>
   promptBlocks (addTransactionAnalysisMessage st) = promptBlocks st"
  by (simp add: addTransactionAnalysisMessage_def addMessage_def userEntries_def
      promptBlocks_def isUserMessage_def isPromptBlock_def)

lemma reader_measures:
  "userTurns (readerLoaded text c) = userTurns c \<and> blocks (readerLoaded text c) = blocks c \<and>
   pendingCount (readerLoaded text c) = pendingCount c \<and>
   userTurns (readerFailed c) = userTurns c \<and> blocks (readerFailed c) = blocks c \<and>
   pendingCount (readerFailed c) = pendingCount c"
  using addTransactionAnalysisMessage_measures [of "(page c)\<lparr>transactions := parseCSV text\<rparr>"]
  by (simp add: readerLoaded_def readerFailed_def userTurns_def blocks_def pendingCount_def resetFileInput_def
      addMessage_def)
     (simp add: userEntries_def promptBlocks_def isUserMessage_def isPromptBlock_def)

lemma completes_StreamEnded:
  "completes e c = (\<exists>i. e = StreamEnded i \<and> i < length (sends c) \<and> phase (sends c ! i) = Streaming)"
  by (cases e) (simp_all add: completes_def)

lemma step_not_completes:
  assumes "\<not> completes e c"
  shows "userTurns c \<le> userTurns (step env e c) \<and> blocks (step env e c) = blocks c \<and>
         pendingCount (step env e c) + userTurns c \<le> pendingCount c + userTurns (step env e c)"
proof (cases e)
  case (SelectProfile tag)
  then show ?thesis using profileClick_measures [of c env tag] by simp
next
  case (TypeAndSubmit t)
  then show ?thesis using formSubmit_measures [of c env t] by simp
next
  case (ClickInHistory k j)
  then show ?thesis using historyClick_measures [of c env k j] by simp
next
  case CloseViewer
  then show ?thesis
    by (simp add: userTurns_def blocks_def pendingCount_def userEntries_def promptBlocks_def)
next
  case (ChooseFile chosen)
  then show ?thesis
    by (cases chosen)
       (simp_all add: handleFileSelect_def userTurns_def blocks_def pendingCount_def userEntries_def
         promptBlocks_def)
next
  case (FileLoaded t)
  then show ?thesis using reader_measures [of t c] by simp
next
  case FileFailed
  then show ?thesis using reader_measures [of "[]" c] by simp
next
  case RemoveFile
  then show ?thesis
    by (simp add: resetFileInput_def userTurns_def blocks_def pendingCount_def userEntries_def
        promptBlocks_def)
next
  case (Resolved i)
  then show ?thesis using resolved_measures [of i c] by simp
next
  case (Rejected i)
  then show ?thesis using rejected_measures [of i c] by simp
next
  case (ChunkArrived i t)
  then show ?thesis using chunkArrived_measures [of i t c] by simp
next
  case (StreamEnded i)
  with assms have "streamEnded (userMessageElements env) i c = c"
    by (intro streamEnded_idle) (simp add: completes_def)
  with StreamEnded show ?thesis by simp
next
  case (StreamFailed i)
  then show ?thesis using streamFailed_measures [of i c] by simp
qed

lemma userElements_le:
  "length (filter isUserMessage es) \<le> sum_list (map (userElements m) es)"
proof (induction es)
  case Nil
  show ?case by simp
next
  case (Cons e es)
  then show ?case
    by (cases e) (simp_all add: isUserMessage_def userElements_def)
qed

lemma userEntries_le: "userEntries st \<le> userMessageCount m st"
  by (simp add: userEntries_def userMessageCount_def userElements_le)

lemma userElements_plain:
  "list_all (\<lambda>e. case e of Message sndr html button \<Rightarrow> m html = 0
                           | SuggestedPrompts ps \<Rightarrow> True) es \<Longrightarrow>
   sum_list (map (userElements m) es) = length (filter isUserMessage es)"
proof (induction es)
  case Nil
  show ?case by simp
next
  case (Cons e es)
  then show ?case
    by (cases e) (simp_all add: isUserMessage_def userElements_def)
qed

lemma markup_free_count: "markup_free m st \<Longrightarrow> userMessageCount m st = userEntries st"
  by (simp add: markup_free_def userEntries_def userMessageCount_def userElements_plain)

lemma step_completes:
  assumes "completes e c"
  shows "userTurns (step env e c) = userTurns c"
    and "Suc (pendingCount (step env e c)) = pendingCount c"
    and "userMessageCount (userMessageElements env) (page c) = 1 \<and>
         profilePrompts (userProfile (page c)) \<noteq> [] \<Longrightarrow>
           chatHistory (page (step env e c)) =
             chatHistory (page c) @ [SuggestedPrompts (profilePrompts (userProfile (page c)))]"
    and "\<not> (userMessageCount (userMessageElements env) (page c) = 1 \<and>
            profilePrompts (userProfile (page c)) \<noteq> []) \<Longrightarrow> blocks (step env e c) = blocks c"
proof -
  from assms obtain i where e: "e = StreamEnded i" and i: "i < length (sends c)"
    and s: "phase (sends c ! i) = Streaming"
    by (auto simp: completes_StreamEnded)
  show "userTurns (step env e c) = userTurns c"
    using streamEnded_measures(1) [OF i s] e by simp
  show "Suc (pendingCount (step env e c)) = pendingCount c"
    using streamEnded_measures(2) [OF i s] e by simp
  show "userMessageCount (userMessageElements env) (page c) = 1 \<and>
         profilePrompts (userProfile (page c)) \<noteq> [] \<Longrightarrow>
           chatHistory (page (step env e c)) =
             chatHistory (page c) @ [SuggestedPrompts (profilePrompts (userProfile (page c)))]"
    using streamEnded_measures(5) [OF i s] e by simp
  show "\<not> (userMessageCount (userMessageElements env) (page c) = 1 \<and>
            profilePrompts (userProfile (page c)) \<noteq> []) \<Longrightarrow> blocks (step env e c) = blocks c"
    using streamEnded_measures(6) [OF i s] e by simp
qed

lemma step_blocks:
  "blocks (step env e c) =
     blocks c + (if completes e c \<and> userMessageCount (userMessageElements env) (page c) = 1 \<and>
                    profilePrompts (userProfile (page c)) \<noteq> [] then 1 else 0)"
proof (cases "completes e c")
  case False
  then show ?thesis using step_not_completes [OF False, of env] by simp
next
  case True
  show ?thesis
  proof (cases "userMessageCount (userMessageElements env) (page c) = 1 \<and>
                profilePrompts (userProfile (page c)) \<noteq> []")
    case False
    then show ?thesis using step_completes(4) [OF True False] by auto
  next
    case yes: True
    have "chatHistory (page (step env e c)) =
             chatHistory (page c) @ [SuggestedPrompts (profilePrompts (userProfile (page c)))]"
      using step_completes(3) [OF True yes] .
    then have "blocks (step env e c) = Suc (blocks c)"
      by (simp add: blocks_def promptBlocks_def isPromptBlock_def)
    with True yes show ?thesis by simp
  qed
qed

lemma once_step: "once c \<Longrightarrow> once (step env e c)"
proof (cases "completes e c")
  case False
  assume "once c"
  then show ?thesis
    using step_not_completes [OF False, of env] by (auto simp: once_def)
next
  case True
  assume o: "once c"
  have u: "userTurns (step env e c) = userTurns c" and p: "Suc (pendingCount (step env e c)) = pendingCount c"
    using step_completes(1,2) [OF True] by auto
  show ?thesis
    using o u p step_blocks [of env e c] userEntries_le [of "page c" "userMessageElements env"]
    by (auto simp: once_def userTurns_def split: if_splits)
qed

lemma once_run: "once c \<Longrightarrow> once (run env es c)"
  by (induction es arbitrary: c) (simp_all add: run_def once_step)

lemma once_initial: "once initial"
  by (simp add: once_def initial_def userTurns_def blocks_def pendingCount_def userEntries_def
      promptBlocks_def)

lemma missed_step: "missed c \<Longrightarrow> missed (step env e c) \<and> blocks (step env e c) = blocks c"
proof (cases "completes e c")
  case False
  assume "missed c"
  then show ?thesis
    using step_not_completes [OF False, of env] by (auto simp: missed_def)
next
  case True
  assume m: "missed c"
  have u: "userTurns (step env e c) = userTurns c" and p: "Suc (pendingCount (step env e c)) = pendingCount c"
    using step_completes(1,2) [OF True] by auto
  show ?thesis
    using m u p step_blocks [of env e c] userEntries_le [of "page c" "userMessageElements env"]
    by (auto simp: missed_def userTurns_def split: if_splits)
qed

lemma missed_run: "missed c \<Longrightarrow> blocks (run env es c) = blocks c"
proof (induction es arbitrary: c)
  case Nil
  then show ?case by (simp add: run_def)
next
  case (Cons e es)
  from missed_step [OF Cons.prems, of env e]
  have "missed (step env e c)" and "blocks (step env e c) = blocks c" by auto
  with Cons.IH [of "step env e c"] show ?case by (simp add: run_def)
qed

section \<open>Properties of the prompt\<close>

lemma show_nat_small: "n < 10 \<Longrightarrow> show_nat n = [digit n]"
  by (simp add: show_nat.simps)

lemma show_nat_big: "10 \<le> n \<Longrightarrow> show_nat n = show_nat (n div 10) @ [digit (n mod 10)]"
  by (subst show_nat.simps) simp

lemma fixed2_digits: "fixed2 x = two_decimals (hundredths x)"
proof -
  let ?n = "hundredths x"
  consider "?n < 10" | "10 \<le> ?n" "?n < 100" | "100 \<le> ?n" by linarith
  then show ?thesis
  proof cases
    case 1
    then have "?n div 100 = 0" "?n div 10 = 0" "?n mod 10 = ?n" by auto
    with 1 show ?thesis
      by (simp add: fixed2_def two_decimals_def hundredths_def [symmetric] show_nat_small Let_def
          digit_def)
  next
    case 2
    then have a: "?n div 100 = 0" and b: "?n div 10 < 10" and c: "?n div 10 mod 10 = ?n div 10"
      by auto
    have "show_nat ?n = [digit (?n div 10), digit (?n mod 10)]"
      using 2 b by (simp add: show_nat_big show_nat_small)
    then show ?thesis
      using a c
      by (simp add: fixed2_def two_decimals_def hundredths_def [symmetric] show_nat_small Let_def
          digit_def)
  next
    case 3
    then have b: "10 \<le> ?n div 10" by auto
    have d: "?n div 10 div 10 = ?n div 100"
      by (simp add: div_mult2_eq [symmetric])
    have s: "show_nat ?n = show_nat (?n div 100) @ [digit (?n div 10 mod 10), digit (?n mod 10)]"
      using 3 b d by (simp add: show_nat_big [of ?n] show_nat_big [of "?n div 10"])
    have l: "show_nat (?n div 100) \<noteq> []"
      by (subst show_nat.simps) simp
    show ?thesis
      using l by (simp add: fixed2_def two_decimals_def hundredths_def [symmetric] s Let_def)
  qed
qed

lemma hundredths_nearest: "0 \<le> x \<Longrightarrow> \<bar>of_nat (hundredths x) / 100 - x\<bar> \<le> 1 / 200"
proof -
  assume x: "0 \<le> x"
  let ?f = "\<lfloor>x * 100 + 1 / 2\<rfloor>"
  have f0: "0 \<le> ?f" using x by simp
  then have n: "(of_nat (hundredths x) :: rat) = of_int ?f"
    by (simp add: hundredths_def)
  define y :: rat where "y = of_int ?f"
  have "y \<le> x * 100 + 1 / 2" and "x * 100 + 1 / 2 < y + 1"
    unfolding y_def by linarith+
  then have "y / 100 - x \<le> 1 / 200" and "- (y / 100 - x) \<le> 1 / 200"
    by (simp_all add: field_simps)
  then have "\<bar>y / 100 - x\<bar> \<le> 1 / 200"
    by (rule abs_leI)
  then show ?thesis
    unfolding n y_def .
qed

lemma round_half_even_nonneg: "0 \<le> y \<Longrightarrow> 0 \<le> round_half_even y"
proof -
  assume "0 \<le> y"
  then have "0 \<le> \<lfloor>y\<rfloor>" by simp
  then show ?thesis by (simp add: round_half_even_def Let_def)
qed

lemma pow2_pos: "0 < pow2 q"
  by (simp add: pow2_def)

lemma scaled_nonneg: "0 \<le> a \<Longrightarrow> 0 \<le> of_int (round_half_even (a / pow2 q)) * pow2 q"
  using round_half_even_nonneg [of "a / pow2 q"] pow2_pos [of q]
  by (simp add: divide_nonneg_pos less_imp_le)

lemma round64_nonneg: "0 \<le> x \<Longrightarrow> nonneg (round64 x)"
  using scaled_nonneg [of "\<bar>x\<bar>"]
  by (auto simp: round64_def nonneg_def Let_def)

lemma round64_nonpos: "x \<le> 0 \<Longrightarrow> nonpos (round64 x)"
  using scaled_nonneg [of "\<bar>x\<bar>"]
  by (auto simp: round64_def nonpos_def Let_def)

lemma js_add_nonneg: "nonneg a \<Longrightarrow> gt_zero b \<Longrightarrow> nonneg (js_add a b)"
  by (cases a; cases b) (auto simp: nonneg_def intro: round64_nonneg [unfolded nonneg_def])

lemma js_add_nonpos: "nonpos a \<Longrightarrow> lt_zero b \<Longrightarrow> nonpos (js_add a b)"
  by (cases a; cases b) (auto simp: nonpos_def intro: round64_nonpos [unfolded nonpos_def])

lemma foldl_nonneg:
  "nonneg a \<Longrightarrow> \<forall>t \<in> set ts. gt_zero (amount t) \<Longrightarrow>
   nonneg (foldl (\<lambda>sum t. js_add sum (amount t)) a ts)"
  by (induction ts arbitrary: a) (auto simp: js_add_nonneg)

lemma foldl_nonpos:
  "nonpos a \<Longrightarrow> \<forall>t \<in> set ts. lt_zero (amount t) \<Longrightarrow>
   nonpos (foldl (\<lambda>sum t. js_add sum (amount t)) a ts)"
  by (induction ts arbitrary: a) (auto simp: js_add_nonpos)

lemma totalIncome_nonneg: "nonneg (totalIncome ts)"
  unfolding totalIncome_def by (rule foldl_nonneg) (simp_all add: nonneg_def)

lemma totalExpenses_nonpos: "nonpos (totalExpenses ts)"
  unfolding totalExpenses_def by (rule foldl_nonpos) (simp_all add: nonpos_def)

lemma abs_nonpos: "nonpos x \<Longrightarrow> nonneg (js_abs x)"
  by (cases x) (auto simp: nonpos_def nonneg_def)

lemma summarize_nonneg: "nonneg (income (summarize ts)) \<and> nonneg (expenses (summarize ts))"
  by (simp add: summarize_def totalIncome_nonneg abs_nonpos totalExpenses_nonpos)

lemma toFixed2_two_decimals:
  "0 \<le> r \<Longrightarrow> r < 10 ^ 21 \<Longrightarrow> toFixed2 sci (Fin r) = two_decimals (hundredths r)"
  by (simp add: fixed2_digits)

section \<open>The rounding of sums and the totals\<close>

text \<open>
  Powers of two, the exponent of a positive rational, and rounding to the nearest integer.
\<close>

lemma pow2_powi: "pow2 e = 2 powi e"
  by (simp add: pow2_def power_int_def field_simps)

lemma pow2_add: "pow2 (a + b) = pow2 a * pow2 b"
  by (simp add: pow2_powi power_int_add)

lemma pow2_diff: "pow2 (a - b) = pow2 a / pow2 b"
  by (simp add: pow2_powi power_int_diff)

lemma pow2_strict_mono: "a < b \<Longrightarrow> pow2 a < pow2 b"
  by (simp add: pow2_powi power_int_strict_increasing)

lemma pow2_less_iff: "pow2 a < pow2 b \<longleftrightarrow> a < b"
proof
  assume l: "pow2 a < pow2 b"
  show "a < b"
  proof (rule ccontr)
    assume "\<not> a < b"
    then have "b = a \<or> b < a" by auto
    then have "pow2 b \<le> pow2 a" using pow2_strict_mono [of b a] by auto
    with l show False by simp
  qed
qed (rule pow2_strict_mono)

lemma pow2_le_iff: "pow2 a \<le> pow2 b \<longleftrightarrow> a \<le> b"
  using pow2_less_iff [of b a] by (auto simp: not_less [symmetric])

lemma pow2_nat: "0 \<le> e \<Longrightarrow> pow2 e = of_int (2 ^ nat e)"
  by (simp add: pow2_def)

lemma bitlen_bounds:
  "0 < n \<Longrightarrow> 0 < bitlen n \<and> 2 ^ nat (bitlen n - 1) \<le> n \<and> n < 2 ^ nat (bitlen n)"
proof (induction n rule: bitlen.induct)
  case (1 n)
  show ?case
  proof (cases "n div 2 = 0")
    case True
    with "1.prems" have n: "n = 1" by presburger
    have "bitlen 1 = 1" by (simp add: bitlen.simps)
    with n show ?thesis by simp
  next
    case False
    with "1.prems" have h: "0 < n div 2" by simp
    from "1.IH" "1.prems" h
    have ih: "0 < bitlen (n div 2)" "2 ^ nat (bitlen (n div 2) - 1) \<le> n div 2"
      "n div 2 < 2 ^ nat (bitlen (n div 2))" by simp_all
    have b: "bitlen n = 1 + bitlen (n div 2)"
      using "1.prems" by (subst bitlen.simps) simp
    have e1: "nat (bitlen n - 1) = Suc (nat (bitlen (n div 2) - 1))"
      using b ih(1) by simp
    have e2: "nat (bitlen n) = Suc (nat (bitlen (n div 2)))"
      using b ih(1) by simp
    have "2 * (n div 2) \<le> n" by presburger
    then have l: "2 ^ nat (bitlen n - 1) \<le> n"
      unfolding e1 using ih(2) by simp
    have "n < 2 * (n div 2) + 2" by presburger
    moreover have "n div 2 + 1 \<le> 2 ^ nat (bitlen (n div 2))" using ih(3) by simp
    ultimately have u: "n < 2 ^ nat (bitlen n)"
      unfolding e2 by simp
    from l u b ih(1) show ?thesis by simp
  qed
qed

lemma bitlen_pow2:
  assumes "0 < n"
  shows "pow2 (bitlen n - 1) \<le> of_int n" and "of_int n < pow2 (bitlen n)"
proof -
  from bitlen_bounds [OF assms]
  have b: "0 < bitlen n" "2 ^ nat (bitlen n - 1) \<le> n" "n < 2 ^ nat (bitlen n)" by simp_all
  have "pow2 (bitlen n - 1) = of_int (2 ^ nat (bitlen n - 1))"
    using b(1) by (intro pow2_nat) simp
  also have "\<dots> \<le> of_int n" using b(2) by (simp only: of_int_le_iff)
  finally show "pow2 (bitlen n - 1) \<le> of_int n" .
  have "(of_int n :: rat) < of_int (2 ^ nat (bitlen n))" using b(3) by (simp only: of_int_less_iff)
  also have "\<dots> = pow2 (bitlen n)"
    using b(1) by (intro pow2_nat [symmetric]) simp
  finally show "of_int n < pow2 (bitlen n)" .
qed

lemma ilog2_bounds:
  assumes "0 < x"
  shows "pow2 (ilog2 x) \<le> x" and "x < pow2 (ilog2 x + 1)"
proof -
  obtain p q where pq: "quotient_of x = (p, q)" by (cases "quotient_of x")
  then have q: "0 < q" and x: "x = of_int p / of_int q"
    using quotient_of_denom_pos [OF pq] quotient_of_div [OF pq] by simp_all
  have p: "0 < p"
    using assms q x by (simp add: zero_less_divide_iff)
  let ?e = "bitlen p - bitlen q"
  note bp = bitlen_pow2 [OF p] and bq = bitlen_pow2 [OF q]
  have qr: "(0::rat) < of_int q" using q by simp
  have up: "x < pow2 (?e + 1)"
  proof -
    have "x < pow2 (bitlen p) / of_int q"
      unfolding x using bp(2) qr by (simp add: divide_strict_right_mono)
    also have "\<dots> \<le> pow2 (bitlen p) / pow2 (bitlen q - 1)"
      using bq(1) pow2_pos [of "bitlen p"] pow2_pos [of "bitlen q - 1"]
      by (intro divide_left_mono) (simp_all add: less_imp_le)
    also have "\<dots> = pow2 (?e + 1)"
      using pow2_diff [of "bitlen p" "bitlen q - 1"] by (simp add: algebra_simps)
    finally show ?thesis .
  qed
  have lo: "pow2 (?e - 1) \<le> x"
  proof -
    have "pow2 (?e - 1) = pow2 (bitlen p - 1) / pow2 (bitlen q)"
      using pow2_diff [of "bitlen p - 1" "bitlen q"] by (simp add: algebra_simps)
    also have "\<dots> \<le> pow2 (bitlen p - 1) / of_int q"
      using bq(2) qr pow2_pos [of "bitlen p - 1"]
      by (intro divide_left_mono) (simp_all add: less_imp_le)
    also have "\<dots> \<le> x"
      unfolding x using bp(1) qr by (simp add: divide_right_mono)
    finally show ?thesis .
  qed
  show "pow2 (ilog2 x) \<le> x"
    using lo by (simp add: ilog2_def pq Let_def)
  show "x < pow2 (ilog2 x + 1)"
    using up by (simp add: ilog2_def pq Let_def not_le)
qed

lemma ilog2_unique:
  assumes "pow2 e \<le> x" and "x < pow2 (e + 1)"
  shows "ilog2 x = e"
proof -
  have x: "0 < x" using pow2_pos [of e] assms(1) by simp
  note b = ilog2_bounds [OF x]
  have "pow2 e < pow2 (ilog2 x + 1)" using assms(1) b(2) by simp
  then have "e < ilog2 x + 1" by (simp only: pow2_less_iff)
  moreover have "pow2 (ilog2 x) < pow2 (e + 1)" using assms(2) b(1) by simp
  then have "ilog2 x < e + 1" by (simp only: pow2_less_iff)
  ultimately show ?thesis by simp
qed


lemma rhe_int: "round_half_even (of_int n) = n"
  by (simp add: round_half_even_def)

lemma rhe_nearest: "\<bar>x - of_int (round_half_even x)\<bar> \<le> \<bar>x - of_int k\<bar>"
proof -
  let ?f = "\<lfloor>x\<rfloor>"
  have f: "of_int ?f \<le> x" "x < of_int ?f + 1" by linarith+
  have "k \<le> ?f \<or> ?f + 1 \<le> k" by linarith
  then have k: "(of_int k :: rat) \<le> of_int ?f \<or> (of_int ?f :: rat) + 1 \<le> of_int k"
  proof
    assume "k \<le> ?f"
    then have "(of_int k :: rat) \<le> of_int ?f" by (simp only: of_int_le_iff)
    then show ?thesis ..
  next
    assume "?f + 1 \<le> k"
    then have "(of_int (?f + 1) :: rat) \<le> of_int k" by (simp only: of_int_le_iff)
    then show ?thesis by simp
  qed
  consider "x - of_int ?f < 1 / 2" | "1 / 2 < x - of_int ?f"
    | "x - of_int ?f = 1 / 2" "even ?f" | "x - of_int ?f = 1 / 2" "odd ?f"
    by linarith
  then show ?thesis
  proof cases
    case 1
    then have "round_half_even x = ?f" by (simp add: round_half_even_def Let_def)
    with 1 f k show ?thesis by auto
  next
    case 2
    then have "round_half_even x = ?f + 1" by (simp add: round_half_even_def Let_def)
    with 2 f k show ?thesis by auto
  next
    case 3
    then have "round_half_even x = ?f" by (simp add: round_half_even_def Let_def)
    with 3 f k show ?thesis by auto
  next
    case 4
    then have "round_half_even x = ?f + 1" by (simp add: round_half_even_def Let_def)
    with 4 f k show ?thesis by auto
  qed
qed

lemma rhe_floor: "\<lfloor>x\<rfloor> \<le> round_half_even x \<and> round_half_even x \<le> \<lfloor>x\<rfloor> + 1"
  by (simp add: round_half_even_def Let_def)

lemma rhe_ge: "of_int k \<le> x \<Longrightarrow> k \<le> round_half_even x"
proof -
  assume "of_int k \<le> x"
  then have "k \<le> \<lfloor>x\<rfloor>" by linarith
  with rhe_floor [of x] show ?thesis by linarith
qed

lemma rhe_even_iff:
  assumes "even k"
  shows "k \<le> round_half_even x \<longleftrightarrow> of_int k - 1 / 2 \<le> x"
proof
  assume a: "of_int k - 1 / 2 \<le> x"
  show "k \<le> round_half_even x"
  proof (cases "of_int k \<le> x")
    case True
    then show ?thesis by (rule rhe_ge)
  next
    case False
    then have "x < of_int k" by simp
    moreover have "of_int (k - 1) \<le> x" using a by simp
    ultimately have f: "\<lfloor>x\<rfloor> = k - 1" by linarith
    then have o: "odd \<lfloor>x\<rfloor>" using assms by simp
    have d: "1 / 2 \<le> x - of_int \<lfloor>x\<rfloor>" using a f by simp
    then have "round_half_even x = \<lfloor>x\<rfloor> + 1"
      using o by (auto simp: round_half_even_def Let_def)
    with f show ?thesis by simp
  qed
next
  assume r: "k \<le> round_half_even x"
  show "of_int k - 1 / 2 \<le> x"
  proof (rule ccontr)
    assume "\<not> of_int k - 1 / 2 \<le> x"
    then have l: "x < of_int k - 1 / 2" by simp
    then have "x < of_int k" by linarith
    then have f: "\<lfloor>x\<rfloor> \<le> k - 1" by linarith
    show False
    proof (cases "\<lfloor>x\<rfloor> = k - 1")
      case True
      then have "x - of_int \<lfloor>x\<rfloor> < 1 / 2" using l by simp
      then have "round_half_even x = \<lfloor>x\<rfloor>" by (simp add: round_half_even_def Let_def)
      with True r show False by simp
    next
      case False
      with f have "\<lfloor>x\<rfloor> + 1 \<le> k - 1" by simp
      with rhe_floor [of x] r show False by linarith
    qed
  qed
qed

lemma round64_pos:
  assumes "0 < x" and "q = max (ilog2 x - 52) (- 1074)" and "m = round_half_even (x / pow2 q)"
  shows "round64 x =
     (if 971 < q \<or> (q = 971 \<and> 2 ^ 53 \<le> m) then PosInf else Fin (of_int m * pow2 q))"
  using assms(1) unfolding assms(2,3) by (auto simp: round64_def Let_def)

lemma round64_neg:
  assumes "x < 0"
  shows "round64 x =
     (case round64 (- x) of PosInf \<Rightarrow> NegInf | Fin r \<Rightarrow> if r = 0 then NegZero else Fin (- r)
      | y \<Rightarrow> y)"
  using assms pow2_pos [of "max (ilog2 (- x) - 52) (- 1074)"]
  by (auto simp: round64_def Let_def)


lemma pow2_53: "pow2 53 = 2 ^ 53" and pow2_52: "pow2 52 = 2 ^ 52"
  by (simp_all add: pow2_def)

lemma pow2_split: "q \<le> p \<Longrightarrow> pow2 p = of_int (2 ^ nat (p - q)) * pow2 q"
proof -
  assume "q \<le> p"
  then have "pow2 (p - q) = of_int (2 ^ nat (p - q))" by (intro pow2_nat) simp
  moreover have "pow2 p = pow2 (p - q) * pow2 q"
    using pow2_add [of "p - q" q] by simp
  ultimately show ?thesis by simp
qed

lemma below_pow2:
  assumes "\<bar>n\<bar> < 2 ^ 53"
  shows "\<bar>of_int n * pow2 p\<bar> < pow2 (53 + p)"
proof -
  have "(of_int \<bar>n\<bar> :: rat) < of_int (2 ^ 53)" using assms by (simp only: of_int_less_iff)
  then have "\<bar>of_int n :: rat\<bar> < pow2 53" by (simp add: pow2_53)
  then have "\<bar>of_int n :: rat\<bar> * pow2 p < pow2 53 * pow2 p"
    using pow2_pos [of p] by (simp only: mult_strict_right_mono)
  then show ?thesis
    using pow2_pos [of p] by (simp add: pow2_add abs_mult)
qed

lemma round64_exact_pos:
  assumes "0 < K" and "K < 2 ^ 53" and "- 1074 \<le> q0" and "q0 \<le> 971"
  shows "round64 (of_int K * pow2 q0) = Fin (of_int K * pow2 q0)"
proof -
  let ?x = "of_int K * pow2 q0 :: rat"
  have x: "0 < ?x" using assms(1) pow2_pos [of q0] by simp
  define q where "q = max (ilog2 ?x - 52) (- 1074)"
  define m where "m = round_half_even (?x / pow2 q)"
  note b = ilog2_bounds [OF x]
  have "\<bar>?x\<bar> < pow2 (53 + q0)" using assms(1,2) by (intro below_pow2) simp
  then have "pow2 (ilog2 ?x) < pow2 (53 + q0)" using b(1) x by simp
  then have "ilog2 ?x < 53 + q0" by (simp only: pow2_less_iff)
  then have qle: "q \<le> q0" using assms(3) by (simp add: q_def)
  define j where "j = nat (q0 - q)"
  have s: "pow2 q0 = of_int (2 ^ j) * pow2 q"
    unfolding j_def using qle by (rule pow2_split)
  have "?x / pow2 q = of_int (K * 2 ^ j)"
    using pow2_pos [of q] by (simp add: s)
  then have m: "m = K * 2 ^ j" unfolding m_def by (simp only: rhe_int)
  have bk: "of_int m * pow2 q = ?x" by (simp add: m s)
  have "\<not> (971 < q \<or> (q = 971 \<and> 2 ^ 53 \<le> m))"
  proof (cases "q = 971")
    case True
    with qle assms(4) have "j = 0" by (simp add: j_def)
    with m assms(2) True show ?thesis by simp
  next
    case False
    with qle assms(4) show ?thesis by simp
  qed
  with round64_pos [OF x q_def m_def] bk show ?thesis by simp
qed

lemma round64_nearest_pos:
  assumes "0 < x" and "round64 x = Fin y" and "\<bar>n\<bar> < 2 ^ 53" and "- 1074 \<le> p"
  shows "\<bar>x - y\<bar> \<le> \<bar>x - of_int n * pow2 p\<bar>"
proof -
  define q where "q = max (ilog2 x - 52) (- 1074)"
  define m where "m = round_half_even (x / pow2 q)"
  from round64_pos [OF assms(1) q_def m_def] assms(2)
  have y: "y = of_int m * pow2 q" by (auto split: if_splits)
  have near: "\<bar>x - y\<bar> \<le> \<bar>x - of_int k * pow2 q\<bar>" for k
  proof -
    have "\<bar>x / pow2 q - of_int m\<bar> \<le> \<bar>x / pow2 q - of_int k\<bar>"
      unfolding m_def by (rule rhe_nearest)
    then have "\<bar>x / pow2 q - of_int m\<bar> * pow2 q \<le> \<bar>x / pow2 q - of_int k\<bar> * pow2 q"
      using pow2_pos [of q] by (simp only: mult_right_mono less_imp_le)
    moreover have "\<bar>x / pow2 q - of_int i\<bar> * pow2 q = \<bar>x - of_int i * pow2 q\<bar>" for i
    proof -
      have "\<bar>x / pow2 q - of_int i\<bar> * pow2 q = \<bar>(x / pow2 q - of_int i) * pow2 q\<bar>"
        using pow2_pos [of q] by (simp add: abs_mult)
      also have "(x / pow2 q - of_int i) * pow2 q = x - of_int i * pow2 q"
        using pow2_pos [of q] by (simp add: field_simps)
      finally show ?thesis .
    qed
    ultimately show ?thesis by (simp add: y)
  qed
  show ?thesis
  proof (cases "q \<le> p")
    case True
    have "of_int n * pow2 p = of_int (n * 2 ^ nat (p - q)) * pow2 q"
      by (subst pow2_split [OF True]) simp
    with near [of "n * 2 ^ nat (p - q)"] show ?thesis by (simp only:)
  next
    case False
    with assms(4) have q: "q = ilog2 x - 52" and pq: "53 + p \<le> ilog2 x"
      by (simp_all add: q_def)
    note b = ilog2_bounds [OF assms(1)]
    have "\<bar>of_int n * pow2 p\<bar> < pow2 (53 + p)" using assms(3) by (rule below_pow2)
    also have "\<dots> \<le> pow2 (ilog2 x)" using pq by (simp only: pow2_le_iff)
    finally have z: "of_int n * pow2 p < pow2 (ilog2 x)" by simp
    have "pow2 (ilog2 x) = of_int (2 ^ 52) * pow2 q"
      using pow2_add [of 52 q] by (simp add: q pow2_52)
    with near [of "2 ^ 52"] have "\<bar>x - y\<bar> \<le> \<bar>x - pow2 (ilog2 x)\<bar>" by simp
    with b(1) z show ?thesis by simp
  qed
qed

lemma round64_inf_pos:
  assumes "0 < x"
  shows "round64 x = PosInf \<longleftrightarrow> (2 ^ 54 - 1) * pow2 970 \<le> x"
proof -
  define q where "q = max (ilog2 x - 52) (- 1074)"
  define m where "m = round_half_even (x / pow2 q)"
  note r = round64_pos [OF assms q_def m_def]
  note b = ilog2_bounds [OF assms]
  have half: "(2 ^ 54 - 1) * pow2 970 = (2 ^ 53 - 1 / 2) * pow2 971"
    using pow2_add [of 1 970] by (simp add: pow2_def)
  have ev: "2 ^ 53 \<le> round_half_even t \<longleftrightarrow> 2 ^ 53 - 1 / 2 \<le> t" for t
    using rhe_even_iff [of "2 ^ 53" t] by simp
  show ?thesis
  proof
    assume a: "(2 ^ 54 - 1) * pow2 970 \<le> x"
    have "pow2 1023 = 2 ^ 52 * pow2 971" using pow2_add [of 52 971] by (simp add: pow2_52)
    also have "\<dots> \<le> (2 ^ 53 - 1 / 2) * pow2 971"
      using pow2_pos [of 971] by (intro mult_right_mono; simp)
    finally have "pow2 1023 \<le> x" using a half by simp
    then have "pow2 1023 < pow2 (ilog2 x + 1)" using b(2) by simp
    then have "1023 < ilog2 x + 1" by (simp only: pow2_less_iff)
    then have e: "1023 \<le> ilog2 x" by simp
    then have q: "971 \<le> q" by (simp add: q_def)
    show "round64 x = PosInf"
    proof (cases "q = 971")
      case True
      have "2 ^ 53 - 1 / 2 \<le> x / pow2 971"
        using a half pow2_pos [of 971] by (simp add: pos_le_divide_eq)
      then have "2 ^ 53 \<le> m" unfolding m_def True by (simp only: ev)
      with r True show ?thesis by simp
    next
      case False
      with q r show ?thesis by simp
    qed
  next
    assume i: "round64 x = PosInf"
    show "(2 ^ 54 - 1) * pow2 970 \<le> x"
    proof (cases "971 < q")
      case True
      then have "1024 \<le> ilog2 x" by (simp add: q_def)
      then have "pow2 1024 \<le> pow2 (ilog2 x)" by (simp only: pow2_le_iff)
      moreover have "(2 ^ 54 - 1) * pow2 970 \<le> 2 ^ 54 * pow2 970"
        using pow2_pos [of 970] by (intro mult_right_mono; simp)
      moreover have "2 ^ 54 * pow2 970 = pow2 1024"
        using pow2_add [of 54 970] by (simp add: pow2_def)
      ultimately show ?thesis using b(1) by simp
    next
      case False
      with r i have q: "q = 971" and m: "2 ^ 53 \<le> m" by (auto split: if_splits)
      from m have "2 ^ 53 - 1 / 2 \<le> x / pow2 971" unfolding m_def q by (simp only: ev)
      then show ?thesis
        using half pow2_pos [of 971] by (simp add: pos_le_divide_eq)
    qed
  qed
qed


lemma rhe_le: "x \<le> of_int k \<Longrightarrow> round_half_even x \<le> k"
proof (cases "x = of_int k")
  case True
  then show ?thesis by (simp only: rhe_int)
next
  case False
  assume "x \<le> of_int k"
  with False have "x < of_int k" by simp
  then have "\<lfloor>x\<rfloor> < k" by linarith
  with rhe_floor [of x] show ?thesis by linarith
qed

lemma rhe_tie_even:
  assumes "\<bar>x - of_int (round_half_even x)\<bar> = 1 / 2"
  shows "even (round_half_even x)"
proof -
  have f: "of_int \<lfloor>x\<rfloor> \<le> x" "x < of_int \<lfloor>x\<rfloor> + 1" by linarith+
  consider "x - of_int \<lfloor>x\<rfloor> < 1 / 2" | "1 / 2 < x - of_int \<lfloor>x\<rfloor>"
    | "x - of_int \<lfloor>x\<rfloor> = 1 / 2" "even \<lfloor>x\<rfloor>" | "x - of_int \<lfloor>x\<rfloor> = 1 / 2" "odd \<lfloor>x\<rfloor>"
    by linarith
  then show ?thesis
  proof cases
    case 1
    then have "round_half_even x = \<lfloor>x\<rfloor>" by (simp add: round_half_even_def Let_def)
    with 1 f assms show ?thesis by auto
  next
    case 2
    then have "round_half_even x = \<lfloor>x\<rfloor> + 1" by (simp add: round_half_even_def Let_def)
    with 2 f assms show ?thesis by auto
  next
    case 3
    then have "round_half_even x = \<lfloor>x\<rfloor>" by (simp add: round_half_even_def Let_def)
    with 3 show ?thesis by simp
  next
    case 4
    then have "round_half_even x = \<lfloor>x\<rfloor> + 1" by (simp add: round_half_even_def Let_def)
    with 4 show ?thesis by simp
  qed
qed

lemma rhe_half: "\<bar>x - of_int (round_half_even x)\<bar> \<le> 1 / 2"
proof -
  have f: "of_int \<lfloor>x\<rfloor> \<le> x" "x < of_int \<lfloor>x\<rfloor> + 1" by linarith+
  have "\<bar>x - of_int (round_half_even x)\<bar> \<le> x - of_int \<lfloor>x\<rfloor>"
    using rhe_nearest [of x "\<lfloor>x\<rfloor>"] f by simp
  moreover have "\<bar>x - of_int (round_half_even x)\<bar> \<le> of_int \<lfloor>x\<rfloor> + 1 - x"
    using rhe_nearest [of x "\<lfloor>x\<rfloor> + 1"] f by simp
  ultimately show ?thesis by linarith
qed

lemma pow2_Suc: "pow2 (q + 1) = 2 * pow2 q"
proof -
  have "pow2 1 = 2" by (simp add: pow2_def)
  with pow2_add [of 1 q] show ?thesis by (simp add: add.commute)
qed

lemma round64_repr_pos:
  assumes "0 < x" and "round64 x = Fin y"
  shows "\<exists>m q. \<bar>m\<bar> < 2 ^ 53 \<and> - 1074 \<le> q \<and> q \<le> 971 \<and> y = of_int m * pow2 q"
proof -
  define q where "q = max (ilog2 x - 52) (- 1074)"
  define m where "m = round_half_even (x / pow2 q)"
  from round64_pos [OF assms(1) q_def m_def] assms(2)
  have y: "y = of_int m * pow2 q" and nov: "\<not> (971 < q \<or> (q = 971 \<and> 2 ^ 53 \<le> m))"
    by (auto split: if_splits)
  note b = ilog2_bounds [OF assms(1)]
  have q1: "- 1074 \<le> q" and q2: "ilog2 x + 1 \<le> 53 + q" by (simp_all add: q_def)
  have "0 \<le> x / pow2 q" using assms(1) pow2_pos [of q] by simp
  then have m0: "0 \<le> m" unfolding m_def using rhe_ge [of 0 "x / pow2 q"] by simp
  have "x < pow2 (53 + q)"
    using b(2) q2 pow2_le_iff [of "ilog2 x + 1" "53 + q"] by simp
  then have "x / pow2 q < pow2 53"
    using pow2_pos [of q] by (simp add: pow2_add pos_divide_less_eq)
  then have "x / pow2 q \<le> of_int (2 ^ 53)" by (simp add: pow2_53)
  then have m1: "m \<le> 2 ^ 53" unfolding m_def by (rule rhe_le)
  show ?thesis
  proof (cases "m = 2 ^ 53")
    case False
    with m0 m1 have "\<bar>m\<bar> < 2 ^ 53" by simp
    with q1 nov y show ?thesis by (intro exI [of _ m] exI [of _ q]) simp
  next
    case True
    with nov have q3: "q + 1 \<le> 971" by simp
    have "y = of_int (2 ^ 52) * pow2 (q + 1)"
      by (simp add: y True pow2_Suc)
    with q1 q3 show ?thesis
      by (intro exI [of _ "2 ^ 52"] exI [of _ "q + 1"]) simp
  qed
qed

lemma round64_kind_pos:
  assumes "0 < x"
  shows "round64 x = PosInf \<or> (\<exists>y. round64 x = Fin y \<and> 0 \<le> y)"
proof -
  define q where "q = max (ilog2 x - 52) (- 1074)"
  define m where "m = round_half_even (x / pow2 q)"
  have "0 \<le> x / pow2 q" using assms pow2_pos [of q] by simp
  then have "0 \<le> m" unfolding m_def using rhe_ge [of 0 "x / pow2 q"] by simp
  then have "0 \<le> of_int m * pow2 q" using pow2_pos [of q] by simp
  with round64_pos [OF assms q_def m_def] show ?thesis by auto
qed

lemma round64_tie_pos:
  assumes "0 < x" and "round64 x = Fin y" and "\<bar>n\<bar> < 2 ^ 53" and "- 1074 \<le> p"
    and "of_int n * pow2 p \<noteq> y" and "\<bar>x - y\<bar> = \<bar>x - of_int n * pow2 p\<bar>"
  shows "\<exists>m q. y = of_int (2 * m) * pow2 q \<and> \<bar>y - of_int n * pow2 p\<bar> = pow2 q"
proof -
  define q where "q = max (ilog2 x - 52) (- 1074)"
  define m where "m = round_half_even (x / pow2 q)"
  from round64_pos [OF assms(1) q_def m_def] assms(2)
  have y: "y = of_int m * pow2 q" by (auto split: if_splits)
  have sc: "\<bar>x / pow2 q - of_int i\<bar> * pow2 q = \<bar>x - of_int i * pow2 q\<bar>" for i
  proof -
    have "\<bar>x / pow2 q - of_int i\<bar> * pow2 q = \<bar>(x / pow2 q - of_int i) * pow2 q\<bar>"
      using pow2_pos [of q] by (simp add: abs_mult)
    also have "(x / pow2 q - of_int i) * pow2 q = x - of_int i * pow2 q"
      using pow2_pos [of q] by (simp add: field_simps)
    finally show ?thesis .
  qed
  have "q \<le> p"
  proof (rule ccontr)
    assume "\<not> q \<le> p"
    with assms(4) have q: "q = ilog2 x - 52" and pq: "53 + p \<le> ilog2 x"
      by (simp_all add: q_def)
    note b = ilog2_bounds [OF assms(1)]
    have "\<bar>of_int n * pow2 p\<bar> < pow2 (53 + p)" using assms(3) by (rule below_pow2)
    also have "\<dots> \<le> pow2 (ilog2 x)" using pq by (simp only: pow2_le_iff)
    finally have z: "of_int n * pow2 p < pow2 (ilog2 x)" by simp
    have e: "pow2 (ilog2 x) = of_int (2 ^ 52) * pow2 q"
      using pow2_add [of 52 q] by (simp add: q pow2_52)
    have "\<bar>x / pow2 q - of_int m\<bar> \<le> \<bar>x / pow2 q - of_int (2 ^ 52)\<bar>"
      unfolding m_def by (rule rhe_nearest)
    then have "\<bar>x / pow2 q - of_int m\<bar> * pow2 q \<le> \<bar>x / pow2 q - of_int (2 ^ 52)\<bar> * pow2 q"
      using pow2_pos [of q] by (simp only: mult_right_mono less_imp_le)
    then have "\<bar>x - y\<bar> \<le> \<bar>x - pow2 (ilog2 x)\<bar>"
      unfolding sc y e .
    with b(1) z assms(6) show False by simp
  qed
  define k where "k = n * 2 ^ nat (p - q)"
  have z: "of_int n * pow2 p = of_int k * pow2 q"
    unfolding k_def by (subst pow2_split [OF \<open>q \<le> p\<close>]) simp
  have "\<bar>x / pow2 q - of_int m\<bar> * pow2 q = \<bar>x / pow2 q - of_int k\<bar> * pow2 q"
    unfolding sc using assms(6) by (simp add: y z)
  then have d: "\<bar>x / pow2 q - of_int m\<bar> = \<bar>x / pow2 q - of_int k\<bar>"
    using pow2_pos [of q] by simp
  have km: "k \<noteq> m" using assms(5) by (auto simp: y z)
  have "\<bar>x / pow2 q - of_int m\<bar> \<le> 1 / 2"
    unfolding m_def by (rule rhe_half)
  moreover have "1 \<le> \<bar>of_int k - (of_int m :: rat)\<bar>"
  proof -
    from km have "1 \<le> \<bar>k - m\<bar>" by simp
    then have "(of_int 1 :: rat) \<le> of_int \<bar>k - m\<bar>" by (simp only: of_int_le_iff)
    then show ?thesis by simp
  qed
  ultimately have half: "\<bar>x / pow2 q - of_int m\<bar> = 1 / 2" and one: "\<bar>of_int k - (of_int m :: rat)\<bar> = 1"
    using d by linarith+
  from half have "even m" unfolding m_def by (rule rhe_tie_even)
  then obtain m' where m': "m = 2 * m'" by (auto elim: evenE)
  have "\<bar>y - of_int n * pow2 p\<bar> = \<bar>(of_int m - of_int k) * pow2 q\<bar>"
    by (simp add: y z algebra_simps)
  also have "\<dots> = \<bar>of_int k - (of_int m :: rat)\<bar> * pow2 q"
    using pow2_pos [of q] by (simp add: abs_mult abs_minus_commute)
  finally have "\<bar>y - of_int n * pow2 p\<bar> = pow2 q" by (simp add: one)
  with y m' show ?thesis by (intro exI [of _ m'] exI [of _ q]) simp
qed

lemma round64_abs_neg:
  assumes "x < 0"
  shows "js_abs (round64 x) = round64 (- x)"
proof -
  from assms have p: "0 < - x" by simp
  from round64_kind_pos [OF p] show ?thesis
    by (auto simp: round64_neg [OF assms])
qed

lemma round64_exact:
  assumes "\<bar>K\<bar> < 2 ^ 53" and "- 1074 \<le> q0" and "q0 \<le> 971"
  shows "round64 (of_int K * pow2 q0) = Fin (of_int K * pow2 q0)"
proof -
  consider "K = 0" | "0 < K" | "K < 0" by linarith
  then show ?thesis
  proof cases
    case 1
    then show ?thesis by (simp add: round64_def)
  next
    case 2
    with assms show ?thesis by (intro round64_exact_pos) simp_all
  next
    case 3
    then have x: "of_int K * pow2 q0 < 0" using pow2_pos [of q0] by (simp add: mult_neg_pos)
    have "round64 (of_int (- K) * pow2 q0) = Fin (of_int (- K) * pow2 q0)"
      using 3 assms by (intro round64_exact_pos) simp_all
    then have "round64 (- (of_int K * pow2 q0)) = Fin (- (of_int K * pow2 q0))" by simp
    with x 3 pow2_pos [of q0] show ?thesis by (simp add: round64_neg [OF x])
  qed
qed

text \<open>One more record: how a total changes, and the totals of amounts that add up exactly.\<close>

lemma totalIncome_snoc:
  "totalIncome (ts @ [t])
     = (if gt_zero (amount t) then js_add (totalIncome ts) (amount t) else totalIncome ts)"
  by (simp add: totalIncome_def)

lemma totalExpenses_snoc:
  "totalExpenses (ts @ [t])
     = (if lt_zero (amount t) then js_add (totalExpenses ts) (amount t) else totalExpenses ts)"
  by (simp add: totalExpenses_def)

lemma income_step:
  assumes "income (summarize ts) = Fin a" and "amount t = Fin b" and "0 < b"
  shows "income (summarize (ts @ [t])) = round64 (a + b)" and "0 < a + b"
proof -
  from assms(1) totalIncome_nonneg [of ts] have a: "totalIncome ts = Fin a" "0 \<le> a"
    by (simp_all add: summarize_def nonneg_def)
  show "income (summarize (ts @ [t])) = round64 (a + b)"
    using a assms(2,3) by (simp add: summarize_def totalIncome_snoc)
  show "0 < a + b" using a(2) assms(3) by simp
qed

lemma expenses_step:
  assumes "expenses (summarize ts) = Fin a" and "amount t = Fin b" and "b < 0"
    and "0 < a \<or> (b = of_int k * pow2 j \<and> \<bar>k\<bar> < 2 ^ 53 \<and> - 1074 \<le> j \<and> j \<le> 971)"
  shows "expenses (summarize (ts @ [t])) = round64 (a - b)" and "0 < a - b"
proof -
  from assms(1) have s: "js_abs (totalExpenses ts) = Fin a" by (simp add: summarize_def)
  have e: "expenses (summarize (ts @ [t])) = js_abs (js_add (totalExpenses ts) (Fin b))"
    using assms(2,3) by (simp add: summarize_def totalExpenses_snoc)
  from s totalExpenses_nonpos [of ts]
  consider r where "totalExpenses ts = Fin r" "r \<le> 0" "a = - r"
    | "totalExpenses ts = NegZero" "a = 0"
    by (cases "totalExpenses ts") (auto simp: nonpos_def)
  then show "expenses (summarize (ts @ [t])) = round64 (a - b)"
  proof cases
    case 1
    then have "r + b < 0" using assms(3) by simp
    from round64_abs_neg [OF this] 1 show ?thesis by (simp add: e)
  next
    case 2
    with assms(4) have b: "b = of_int k * pow2 j" "\<bar>k\<bar> < 2 ^ 53" "- 1074 \<le> j" "j \<le> 971"
      by simp_all
    have "round64 (of_int (- k) * pow2 j) = Fin (of_int (- k) * pow2 j)"
      using b(2,3,4) by (intro round64_exact) simp_all
    then have "round64 (- b) = Fin (- b)" by (simp add: b(1))
    with 2 assms(3) show ?thesis by (simp add: e)
  qed
  from s totalExpenses_nonpos [of ts] have "0 \<le> a"
    by (cases "totalExpenses ts") (auto simp: nonpos_def)
  with assms(3) show "0 < a - b" by simp
qed

lemma income_infinite:
  assumes "gt_zero (amount t)" and "income (summarize ts) = PosInf \<or> amount t = PosInf"
  shows "income (summarize (ts @ [t])) = PosInf"
  using assms totalIncome_nonneg [of ts]
  by (cases "totalIncome ts"; cases "amount t")
     (simp_all add: summarize_def totalIncome_snoc nonneg_def)

lemma expenses_infinite:
  assumes "lt_zero (amount t)" and "expenses (summarize ts) = PosInf \<or> amount t = NegInf"
  shows "expenses (summarize (ts @ [t])) = PosInf"
  using assms totalExpenses_nonpos [of ts]
  by (cases "totalExpenses ts"; cases "amount t")
     (simp_all add: summarize_def totalExpenses_snoc nonpos_def)

lemma totals_skip:
  "\<not> gt_zero (amount t) \<Longrightarrow> income (summarize (ts @ [t])) = income (summarize ts)"
  "\<not> lt_zero (amount t) \<Longrightarrow> expenses (summarize (ts @ [t])) = expenses (summarize ts)"
  by (simp_all add: summarize_def totalIncome_snoc totalExpenses_snoc)

lemma totals_Nil: "income (summarize []) = Fin 0 \<and> expenses (summarize []) = Fin 0"
  by (simp add: summarize_def totalIncome_def totalExpenses_def)

lemma sum_abs_nonneg: "0 \<le> sum_list (map abs (ks :: int list))"
  by (induction ks) auto

lemma foldl_exact:
  assumes "- 1074 \<le> q" and "q \<le> 971"
  shows "\<bar>A\<bar> + sum_list (map abs ks) < 2 ^ 53 \<Longrightarrow>
         foldl js_add (Fin (of_int A * pow2 q)) (map (\<lambda>k. Fin (of_int k * pow2 q)) ks)
           = Fin (of_int (A + sum_list ks) * pow2 q)"
proof (induction ks arbitrary: A)
  case Nil
  show ?case by simp
next
  case (Cons k ks)
  have "\<bar>A + k\<bar> < 2 ^ 53" using Cons.prems sum_abs_nonneg [of ks] by simp
  then have "round64 (of_int (A + k) * pow2 q) = Fin (of_int (A + k) * pow2 q)"
    using assms by (rule round64_exact)
  then have "js_add (Fin (of_int A * pow2 q)) (Fin (of_int k * pow2 q))
               = Fin (of_int (A + k) * pow2 q)"
    by (simp add: algebra_simps)
  moreover have "\<bar>A + k\<bar> + sum_list (map abs ks) < 2 ^ 53" using Cons.prems by simp
  ultimately show ?case
    using Cons.IH [of "A + k"] by (simp add: algebra_simps)
qed

lemma sum_abs_filter: "sum_list (map abs (filter P ks)) \<le> sum_list (map abs (ks :: int list))"
  by (induction ks) auto

lemma sum_negative: "sum_list (filter (\<lambda>k. k < 0) (ks :: int list)) \<le> 0"
  by (induction ks) auto

lemma totals_exact:
  assumes "map amount ts = map (\<lambda>k. Fin (of_int k * pow2 q)) ks"
    and "- 1074 \<le> q" and "q \<le> 971" and "sum_list (map abs ks) < 2 ^ 53"
  shows "income (summarize ts) = Fin (of_int (sum_list (filter (\<lambda>k. 0 < k) ks)) * pow2 q)"
    and "expenses (summarize ts) = Fin (of_int (- sum_list (filter (\<lambda>k. k < 0) ks)) * pow2 q)"
proof -
  let ?f = "\<lambda>k. Fin (of_int k * pow2 q)"
  have g: "(0 < (of_int k :: rat) * pow2 q) = (0 < k)"
    and l: "((of_int k :: rat) * pow2 q < 0) = (k < 0)" for k
    using pow2_pos [of q] by (simp_all add: zero_less_mult_iff mult_less_0_iff)
  have fg: "filter gt_zero (map ?f ks) = map ?f (filter (\<lambda>k. 0 < k) ks)"
    and fl: "filter lt_zero (map ?f ks) = map ?f (filter (\<lambda>k. k < 0) ks)"
    by (simp_all add: filter_map comp_def g l)
  have z: "Fin 0 = Fin (of_int 0 * pow2 q)" by simp
  have bg: "\<bar>0\<bar> + sum_list (map abs (filter (\<lambda>k. 0 < k) ks)) < 2 ^ 53"
    and bl: "\<bar>0\<bar> + sum_list (map abs (filter (\<lambda>k. k < 0) ks)) < 2 ^ 53"
    using sum_abs_filter [of "\<lambda>k. 0 < k" ks] sum_abs_filter [of "\<lambda>k. k < 0" ks] assms(4)
    by simp_all
  have "totalIncome ts = foldl js_add (Fin (of_int 0 * pow2 q)) (map ?f (filter (\<lambda>k. 0 < k) ks))"
    by (simp add: totalIncome_sum js_sum_def assms(1) fg)
  also have "\<dots> = Fin (of_int (0 + sum_list (filter (\<lambda>k. 0 < k) ks)) * pow2 q)"
    using assms(2,3) bg by (rule foldl_exact)
  finally show "income (summarize ts) = Fin (of_int (sum_list (filter (\<lambda>k. 0 < k) ks)) * pow2 q)"
    by (simp add: summarize_def)
  have "totalExpenses ts = foldl js_add (Fin (of_int 0 * pow2 q)) (map ?f (filter (\<lambda>k. k < 0) ks))"
    by (simp add: totalExpenses_sum js_sum_def assms(1) fl)
  also have "\<dots> = Fin (of_int (0 + sum_list (filter (\<lambda>k. k < 0) ks)) * pow2 q)"
    using assms(2,3) bl by (rule foldl_exact)
  finally have "totalExpenses ts = Fin (of_int (sum_list (filter (\<lambda>k. k < 0) ks)) * pow2 q)"
    by simp
  moreover have "\<bar>of_int (sum_list (filter (\<lambda>k. k < 0) ks)) * pow2 q\<bar>
                   = of_int (- sum_list (filter (\<lambda>k. k < 0) ks)) * pow2 q"
    using sum_negative [of ks] pow2_pos [of q] by (simp add: abs_mult)
  ultimately show "expenses (summarize ts)
      = Fin (of_int (- sum_list (filter (\<lambda>k. k < 0) ks)) * pow2 q)"
    by (simp add: summarize_def)
qed

lemma csv_rounding:
  "summarize (parseCSV ''Date,Description,Amount\<newline>2024-02-01,Coffee,0.1\<newline>2024-02-02,Refund,0.2\<newline>2024-02-03,Rent,-0.7\<newline>2024-02-04,Fee,-0.1'')
     = \<lparr>count = 4, income = parseFloat ''0.30000000000000004'',
        expenses = parseFloat ''0.7999999999999999''\<rparr> \<and>
   parseFloat ''0.30000000000000004'' = Fin (1351079888211149 / 4503599627370496) \<and>
   parseFloat ''0.3'' = Fin (5404319552844595 / 18014398509481984) \<and>
   parseFloat ''0.7999999999999999'' = Fin (7205759403792793 / 9007199254740992) \<and>
   parseFloat ''0.8'' = Fin (3602879701896397 / 4503599627370496)"
  by code_simp

lemma round64_laws:
  assumes "0 < x"
  shows "(round64 x = PosInf \<or> (\<exists>y. round64 x = Fin y \<and> 0 \<le> y)) \<and>
         (round64 x = PosInf) = ((2 ^ 54 - 1) * pow2 970 \<le> x) \<and>
         (round64 x = Fin y \<longrightarrow>
            (\<exists>m e. \<bar>m\<bar> < 2 ^ 53 \<and> - 1074 \<le> e \<and> e \<le> 971 \<and> y = of_int m * pow2 e) \<and>
            (\<bar>n\<bar> < 2 ^ 53 \<and> - 1074 \<le> p \<longrightarrow>
               \<bar>x - y\<bar> \<le> \<bar>x - of_int n * pow2 p\<bar> \<and>
               (of_int n * pow2 p \<noteq> y \<and> \<bar>x - y\<bar> = \<bar>x - of_int n * pow2 p\<bar> \<longrightarrow>
                  (\<exists>m e. y = of_int (2 * m) * pow2 e \<and> \<bar>y - of_int n * pow2 p\<bar> = pow2 e))))"
  using round64_kind_pos [OF assms] round64_inf_pos [OF assms]
    round64_repr_pos [OF assms, of y] round64_nearest_pos [OF assms, of y n p]
    round64_tie_pos [OF assms, of y n p]
  by blast


lemma totals_kind:
  "(income (summarize ts) = PosInf \<or> (\<exists>a. income (summarize ts) = Fin a \<and> 0 \<le> a)) \<and>
   (expenses (summarize ts) = PosInf \<or> (\<exists>a. expenses (summarize ts) = Fin a \<and> 0 \<le> a))"
proof -
  have "nonneg x \<Longrightarrow> x = PosInf \<or> (\<exists>a. x = Fin a \<and> 0 \<le> a)" for x
    by (cases x) (simp_all add: nonneg_def)
  with summarize_nonneg [of ts] show ?thesis by blast
qed

lemma tie_example:
  "round64 (10808639105689191 / 36028797018963968) = Fin (1351079888211149 / 4503599627370496)"
  by code_simp

text \<open>
  C2. For every list of transactions the count is the length of the list, the income of the
  summary is the sum of the amounts above zero, and the expenses are the absolute value of the
  sum of the amounts below zero; the records with a zero amount change neither total. The two
  records parsed from the example file give count 2, income 2500 and expenses 42.5.

  The sum is the sum of the program's numbers, added in list order from \<open>0\<close>. When the amounts
  are the multiples \<open>k * 2 ^ q\<close> of one binary64 quantum and the absolute values of the \<open>k\<close>
  add up to less than \<open>2 ^ 53\<close>, the totals are the exact sums. In general, the totals of the
  empty list are \<open>0\<close>; a total is \<open>+Infinity\<close> or finite and not below zero; a record whose
  amount is not above zero leaves the income as it is, and one whose amount is not below zero
  the expenses; an infinite amount, or an infinite total, gives an infinite total; a finite
  amount \<open>b\<close> above zero turns the finite income \<open>a\<close> into the binary64 value of \<open>a + b\<close>, and
  a finite amount \<open>d\<close> below zero turns the finite expenses \<open>c\<close> into the binary64 value of
  \<open>c - d\<close> (for \<open>c = 0\<close>, when \<open>d\<close> is a binary64 value). The binary64 value of \<open>0 < x\<close> is
  \<open>+Infinity\<close> exactly from \<open>(2 ^ 54 - 1) * 2 ^ 970\<close> on; below, it is a number \<open>m * 2 ^ e\<close>
  with \<open>\<bar>m\<bar> < 2 ^ 53\<close> and \<open>- 1074 \<le> e \<le> 971\<close>, no number \<open>n * 2 ^ p\<close> of this kind is
  nearer to \<open>x\<close>, and where another one is as near, the value is the one with the even
  significand. So the amounts \<^verbatim>\<open>0.1\<close> and \<^verbatim>\<open>0.2\<close> give the income
  \<^verbatim>\<open>0.30000000000000004\<close>, and \<^verbatim>\<open>-0.7\<close> and \<^verbatim>\<open>-0.1\<close> the expenses
  \<^verbatim>\<open>0.7999999999999999\<close>.
\<close>

theorem summarize_totals:
  "count (summarize ts) = length ts \<and>
   income (summarize ts) = js_sum (filter gt_zero (map amount ts)) \<and>
   expenses (summarize ts) = js_abs (js_sum (filter lt_zero (map amount ts))) \<and>
   income (summarize (filter (\<lambda>t. \<not> is_zero (amount t)) ts)) = income (summarize ts) \<and>
   expenses (summarize (filter (\<lambda>t. \<not> is_zero (amount t)) ts)) = expenses (summarize ts) \<and>
   summarize (parseCSV ''Date,Description,Amount\<newline>2024-01-01,Salary,2500\<newline>2024-01-02,Groceries,-42.50\<newline>bad,row'')
     = \<lparr>count = 2, income = Fin 2500, expenses = Fin (85 / 2)\<rparr> \<and>
   (map amount ts = map (\<lambda>k. Fin (of_int k * pow2 q)) ks \<and> - 1074 \<le> q \<and> q \<le> 971 \<and>
    sum_list (map abs ks) < 2 ^ 53 \<longrightarrow>
      income (summarize ts) = Fin (of_int (sum_list (filter (\<lambda>k. 0 < k) ks)) * pow2 q) \<and>
      expenses (summarize ts) = Fin (of_int (- sum_list (filter (\<lambda>k. k < 0) ks)) * pow2 q)) \<and>
   income (summarize []) = Fin 0 \<and>
   expenses (summarize []) = Fin 0 \<and>
   (income (summarize ts) = PosInf \<or> (\<exists>a. income (summarize ts) = Fin a \<and> 0 \<le> a)) \<and>
   (expenses (summarize ts) = PosInf \<or> (\<exists>a. expenses (summarize ts) = Fin a \<and> 0 \<le> a)) \<and>
   (\<not> gt_zero (amount t) \<longrightarrow> income (summarize (ts @ [t])) = income (summarize ts)) \<and>
   (\<not> lt_zero (amount t) \<longrightarrow> expenses (summarize (ts @ [t])) = expenses (summarize ts)) \<and>
   (gt_zero (amount t) \<and> (income (summarize ts) = PosInf \<or> amount t = PosInf) \<longrightarrow>
      income (summarize (ts @ [t])) = PosInf) \<and>
   (lt_zero (amount t) \<and> (expenses (summarize ts) = PosInf \<or> amount t = NegInf) \<longrightarrow>
      expenses (summarize (ts @ [t])) = PosInf) \<and>
   (income (summarize ts) = Fin a \<and> amount t = Fin b \<and> 0 < b \<longrightarrow>
      income (summarize (ts @ [t])) = round64 (a + b)) \<and>
   (expenses (summarize ts) = Fin c \<and> amount t = Fin d \<and> d < 0 \<and>
    (0 < c \<or> d = of_int k * pow2 j \<and> \<bar>k\<bar> < 2 ^ 53 \<and> - 1074 \<le> j \<and> j \<le> 971) \<longrightarrow>
      expenses (summarize (ts @ [t])) = round64 (c - d)) \<and>
   (0 < x \<longrightarrow>
      (round64 x = PosInf \<or> (\<exists>y. round64 x = Fin y \<and> 0 \<le> y)) \<and>
      (round64 x = PosInf) = ((2 ^ 54 - 1) * pow2 970 \<le> x) \<and>
      (round64 x = Fin y \<longrightarrow>
         (\<exists>m e. \<bar>m\<bar> < 2 ^ 53 \<and> - 1074 \<le> e \<and> e \<le> 971 \<and> y = of_int m * pow2 e) \<and>
         (\<bar>n\<bar> < 2 ^ 53 \<and> - 1074 \<le> p \<longrightarrow>
            \<bar>x - y\<bar> \<le> \<bar>x - of_int n * pow2 p\<bar> \<and>
            (of_int n * pow2 p \<noteq> y \<and> \<bar>x - y\<bar> = \<bar>x - of_int n * pow2 p\<bar> \<longrightarrow>
               (\<exists>m e. y = of_int (2 * m) * pow2 e \<and> \<bar>y - of_int n * pow2 p\<bar> = pow2 e))))) \<and>
   summarize (parseCSV ''Date,Description,Amount\<newline>2024-02-01,Coffee,0.1\<newline>2024-02-02,Refund,0.2\<newline>2024-02-03,Rent,-0.7\<newline>2024-02-04,Fee,-0.1'')
     = \<lparr>count = 4, income = parseFloat ''0.30000000000000004'',
        expenses = parseFloat ''0.7999999999999999''\<rparr>"
proof -
  have c1: "count (summarize ts) = length ts" by (simp add: summarize_def)
  have c2: "income (summarize ts) = js_sum (filter gt_zero (map amount ts))"
    by (simp add: summarize_def totalIncome_sum)
  have c3: "expenses (summarize ts) = js_abs (js_sum (filter lt_zero (map amount ts)))"
    by (simp add: summarize_def totalExpenses_sum)
  have c4: "income (summarize (filter (\<lambda>t. \<not> is_zero (amount t)) ts)) = income (summarize ts)"
    unfolding summarize_def totalIncome_def filter_gt_zero_drop_zero by simp
  have c5: "expenses (summarize (filter (\<lambda>t. \<not> is_zero (amount t)) ts)) = expenses (summarize ts)"
    unfolding summarize_def totalExpenses_def filter_lt_zero_drop_zero by simp
  have "summarize [\<lparr>date = ''2024-01-01'', description = ''Salary'', amount = Fin 2500\<rparr>,
        \<lparr>date = ''2024-01-02'', description = ''Groceries'', amount = Fin (- 85 / 2)\<rparr>]
     = \<lparr>count = 2, income = Fin 2500, expenses = Fin (85 / 2)\<rparr>"
    by code_simp
  then have c6: "summarize (parseCSV ''Date,Description,Amount\<newline>2024-01-01,Salary,2500\<newline>2024-01-02,Groceries,-42.50\<newline>bad,row'')
     = \<lparr>count = 2, income = Fin 2500, expenses = Fin (85 / 2)\<rparr>"
    by (simp only: csv_example)
  have c7: "map amount ts = map (\<lambda>k. Fin (of_int k * pow2 q)) ks \<and> - 1074 \<le> q \<and> q \<le> 971 \<and>
    sum_list (map abs ks) < 2 ^ 53 \<longrightarrow>
      income (summarize ts) = Fin (of_int (sum_list (filter (\<lambda>k. 0 < k) ks)) * pow2 q) \<and>
      expenses (summarize ts) = Fin (of_int (- sum_list (filter (\<lambda>k. k < 0) ks)) * pow2 q)"
    using totals_exact [of ts q ks] by blast
  have c8: "income (summarize []) = Fin 0" and c9: "expenses (summarize []) = Fin 0"
    using totals_Nil by simp_all
  have c10: "income (summarize ts) = PosInf \<or> (\<exists>a. income (summarize ts) = Fin a \<and> 0 \<le> a)"
    and c11: "expenses (summarize ts) = PosInf \<or> (\<exists>a. expenses (summarize ts) = Fin a \<and> 0 \<le> a)"
    using totals_kind [of ts] by blast+
  have c12: "\<not> gt_zero (amount t) \<longrightarrow> income (summarize (ts @ [t])) = income (summarize ts)"
    and c13: "\<not> lt_zero (amount t) \<longrightarrow> expenses (summarize (ts @ [t])) = expenses (summarize ts)"
    using totals_skip [of t ts] by blast+
  have c14: "gt_zero (amount t) \<and> (income (summarize ts) = PosInf \<or> amount t = PosInf) \<longrightarrow>
      income (summarize (ts @ [t])) = PosInf"
    using income_infinite [of t ts] by blast
  have c15: "lt_zero (amount t) \<and> (expenses (summarize ts) = PosInf \<or> amount t = NegInf) \<longrightarrow>
      expenses (summarize (ts @ [t])) = PosInf"
    using expenses_infinite [of t ts] by blast
  have c16: "income (summarize ts) = Fin a \<and> amount t = Fin b \<and> 0 < b \<longrightarrow>
      income (summarize (ts @ [t])) = round64 (a + b)"
    using income_step(1) [of ts a t b] by blast
  have c17: "expenses (summarize ts) = Fin c \<and> amount t = Fin d \<and> d < 0 \<and>
    (0 < c \<or> d = of_int k * pow2 j \<and> \<bar>k\<bar> < 2 ^ 53 \<and> - 1074 \<le> j \<and> j \<le> 971) \<longrightarrow>
      expenses (summarize (ts @ [t])) = round64 (c - d)"
    using expenses_step(1) [of ts c t d k j] by blast
  have c18: "0 < x \<longrightarrow>
      (round64 x = PosInf \<or> (\<exists>y. round64 x = Fin y \<and> 0 \<le> y)) \<and>
      (round64 x = PosInf) = ((2 ^ 54 - 1) * pow2 970 \<le> x) \<and>
      (round64 x = Fin y \<longrightarrow>
         (\<exists>m e. \<bar>m\<bar> < 2 ^ 53 \<and> - 1074 \<le> e \<and> e \<le> 971 \<and> y = of_int m * pow2 e) \<and>
         (\<bar>n\<bar> < 2 ^ 53 \<and> - 1074 \<le> p \<longrightarrow>
            \<bar>x - y\<bar> \<le> \<bar>x - of_int n * pow2 p\<bar> \<and>
            (of_int n * pow2 p \<noteq> y \<and> \<bar>x - y\<bar> = \<bar>x - of_int n * pow2 p\<bar> \<longrightarrow>
               (\<exists>m e. y = of_int (2 * m) * pow2 e \<and> \<bar>y - of_int n * pow2 p\<bar> = pow2 e))))"
    using round64_laws [of x y n p] by (rule impI)
  have c19: "summarize (parseCSV ''Date,Description,Amount\<newline>2024-02-01,Coffee,0.1\<newline>2024-02-02,Refund,0.2\<newline>2024-02-03,Rent,-0.7\<newline>2024-02-04,Fee,-0.1'')
     = \<lparr>count = 4, income = parseFloat ''0.30000000000000004'',
        expenses = parseFloat ''0.7999999999999999''\<rparr>"
    using csv_rounding by (rule conjunct1)
  show ?thesis
    by (intro conjI) (fact c1 c2 c3 c4 c5 c6 c7 c8 c9 c10 c11 c12 c13 c14 c15 c16 c17 c18 c19)+
qed

text \<open>
  The theorem at four amounts that add up exactly, at single records with a finite and with an
  infinite amount, and at the exact sum of the binary64 values of \<^verbatim>\<open>0.1\<close> and \<^verbatim>\<open>0.2\<close>,
  which lies halfway between two binary64 values.
\<close>

theorem summarize_totals_witness:
  "income (summarize [\<lparr>date = ''2024-03-01'', description = ''Fare'', amount = Fin (3 / 2)\<rparr>,
      \<lparr>date = ''2024-03-02'', description = ''Refund'', amount = Fin (9 / 4)\<rparr>,
      \<lparr>date = ''2024-03-03'', description = ''Gum'', amount = Fin (- 1 / 2)\<rparr>,
      \<lparr>date = ''2024-03-04'', description = ''Fee'', amount = Fin (- 1 / 4)\<rparr>]) = Fin (15 / 4) \<and>
   expenses (summarize [\<lparr>date = ''2024-03-01'', description = ''Fare'', amount = Fin (3 / 2)\<rparr>,
      \<lparr>date = ''2024-03-02'', description = ''Refund'', amount = Fin (9 / 4)\<rparr>,
      \<lparr>date = ''2024-03-03'', description = ''Gum'', amount = Fin (- 1 / 2)\<rparr>,
      \<lparr>date = ''2024-03-04'', description = ''Fee'', amount = Fin (- 1 / 4)\<rparr>]) = Fin (3 / 4) \<and>
   income (summarize [\<lparr>date = ''2024-03-05'', description = ''Tip'', amount = Fin (1 / 10)\<rparr>])
     = round64 (1 / 10) \<and>
   expenses (summarize [\<lparr>date = ''2024-03-05'', description = ''Tip'', amount = Fin (1 / 10)\<rparr>])
     = Fin 0 \<and>
   expenses (summarize [\<lparr>date = ''2024-03-03'', description = ''Gum'', amount = Fin (- 1 / 2)\<rparr>])
     = round64 (1 / 2) \<and>
   income (summarize [\<lparr>date = ''2024-03-03'', description = ''Gum'', amount = Fin (- 1 / 2)\<rparr>])
     = Fin 0 \<and>
   income (summarize [\<lparr>date = ''2024-03-06'', description = ''Prize'', amount = PosInf\<rparr>]) = PosInf \<and>
   expenses (summarize [\<lparr>date = ''2024-03-07'', description = ''Debt'', amount = NegInf\<rparr>]) = PosInf \<and>
   \<bar>10808639105689191 / 36028797018963968 - 1351079888211149 / 4503599627370496\<bar>
     \<le> \<bar>10808639105689191 / 36028797018963968 - of_int 5404319552844595 * pow2 (- 54)\<bar> \<and>
   (\<exists>m e. (1351079888211149 / 4503599627370496 :: rat) = of_int (2 * m) * pow2 e \<and>
      \<bar>1351079888211149 / 4503599627370496 - of_int 5404319552844595 * pow2 (- 54)\<bar> = pow2 e)"
proof -
  let ?fare = "\<lparr>date = ''2024-03-01'', description = ''Fare'', amount = Fin (3 / 2)\<rparr>"
  let ?refund = "\<lparr>date = ''2024-03-02'', description = ''Refund'', amount = Fin (9 / 4)\<rparr>"
  let ?gum = "\<lparr>date = ''2024-03-03'', description = ''Gum'', amount = Fin (- 1 / 2)\<rparr>"
  let ?fee = "\<lparr>date = ''2024-03-04'', description = ''Fee'', amount = Fin (- 1 / 4)\<rparr>"
  let ?tip = "\<lparr>date = ''2024-03-05'', description = ''Tip'', amount = Fin (1 / 10)\<rparr>"
  let ?prize = "\<lparr>date = ''2024-03-06'', description = ''Prize'', amount = PosInf\<rparr>"
  let ?debt = "\<lparr>date = ''2024-03-07'', description = ''Debt'', amount = NegInf\<rparr>"
  let ?ts = "[?fare, ?refund, ?gum, ?fee]"
  let ?x = "10808639105689191 / 36028797018963968 :: rat"
  let ?y = "1351079888211149 / 4503599627370496 :: rat"
  have "map amount ?ts = map (\<lambda>k. Fin (of_int k * pow2 (- 2))) [6, 9, - 2, - 1] \<and>
        - 1074 \<le> (- 2 :: int) \<and> (- 2 :: int) \<le> 971 \<and>
        sum_list (map abs [6, 9, - 2, - 1 :: int]) < 2 ^ 53 \<longrightarrow>
        income (summarize ?ts)
          = Fin (of_int (sum_list (filter (\<lambda>k. 0 < k) [6, 9, - 2, - 1])) * pow2 (- 2)) \<and>
        expenses (summarize ?ts)
          = Fin (of_int (- sum_list (filter (\<lambda>k. k < 0) [6, 9, - 2, - 1])) * pow2 (- 2))"
    using summarize_totals [where ts = "?ts" and q = "- 2" and ks = "[6, 9, - 2, - 1]"
        and t = "?tip" and a = "0" and b = "0" and c = "0" and d = "0" and k = "0" and j = "0"
        and x = "1" and y = "1" and n = "0" and p = "0"]
    by (elim conjE) assumption
  then have e: "income (summarize ?ts) = Fin (15 / 4)" "expenses (summarize ?ts) = Fin (3 / 4)"
    by (simp_all add: pow2_def)
  have n1: "income (summarize []) = Fin 0"
    using summarize_totals [where ts = "[]" and q = "0" and ks = "[]" and t = "?tip" and a = "0"
        and b = "0" and c = "0" and d = "0" and k = "0" and j = "0" and x = "1" and y = "1"
        and n = "0" and p = "0"]
    by (elim conjE) assumption
  have n2: "expenses (summarize []) = Fin 0"
    using summarize_totals [where ts = "[]" and q = "0" and ks = "[]" and t = "?tip" and a = "0"
        and b = "0" and c = "0" and d = "0" and k = "0" and j = "0" and x = "1" and y = "1"
        and n = "0" and p = "0"]
    by (elim conjE) assumption
  have "income (summarize []) = Fin 0 \<and> amount ?tip = Fin (1 / 10) \<and> (0 :: rat) < 1 / 10 \<longrightarrow>
        income (summarize ([] @ [?tip])) = round64 (0 + 1 / 10)"
    using summarize_totals [where ts = "[]" and q = "0" and ks = "[]" and t = "?tip" and a = "0"
        and b = "1 / 10" and c = "0" and d = "0" and k = "0" and j = "0" and x = "1" and y = "1"
        and n = "0" and p = "0"]
    by (elim conjE) assumption
  with n1 have i1: "income (summarize [?tip]) = round64 (1 / 10)" by simp
  have "\<not> lt_zero (amount ?tip) \<longrightarrow>
        expenses (summarize ([] @ [?tip])) = expenses (summarize [])"
    using summarize_totals [where ts = "[]" and q = "0" and ks = "[]" and t = "?tip" and a = "0"
        and b = "1 / 10" and c = "0" and d = "0" and k = "0" and j = "0" and x = "1" and y = "1"
        and n = "0" and p = "0"]
    by (elim conjE) assumption
  with n2 have i2: "expenses (summarize [?tip]) = Fin 0" by simp
  have "expenses (summarize []) = Fin 0 \<and> amount ?gum = Fin (- 1 / 2) \<and> (- 1 / 2 :: rat) < 0 \<and>
        ((0 :: rat) < 0 \<or> (- 1 / 2 :: rat) = of_int (- 1) * pow2 (- 1) \<and> \<bar>- 1 :: int\<bar> < 2 ^ 53 \<and>
         - 1074 \<le> (- 1 :: int) \<and> (- 1 :: int) \<le> 971) \<longrightarrow>
        expenses (summarize ([] @ [?gum])) = round64 (0 - - 1 / 2)"
    using summarize_totals [where ts = "[]" and q = "0" and ks = "[]" and t = "?gum" and a = "0"
        and b = "0" and c = "0" and d = "- 1 / 2" and k = "- 1" and j = "- 1" and x = "1"
        and y = "1" and n = "0" and p = "0"]
    by (elim conjE) assumption
  with n2 have x1: "expenses (summarize [?gum]) = round64 (1 / 2)" by (simp add: pow2_def)
  have "\<not> gt_zero (amount ?gum) \<longrightarrow>
        income (summarize ([] @ [?gum])) = income (summarize [])"
    using summarize_totals [where ts = "[]" and q = "0" and ks = "[]" and t = "?gum" and a = "0"
        and b = "0" and c = "0" and d = "- 1 / 2" and k = "- 1" and j = "- 1" and x = "1"
        and y = "1" and n = "0" and p = "0"]
    by (elim conjE) assumption
  with n1 have x2: "income (summarize [?gum]) = Fin 0" by simp
  have "gt_zero (amount ?prize) \<and> (income (summarize []) = PosInf \<or> amount ?prize = PosInf) \<longrightarrow>
        income (summarize ([] @ [?prize])) = PosInf"
    using summarize_totals [where ts = "[]" and q = "0" and ks = "[]" and t = "?prize"
        and a = "0" and b = "0" and c = "0" and d = "0" and k = "0" and j = "0" and x = "1"
        and y = "1" and n = "0" and p = "0"]
    by (elim conjE) assumption
  then have p: "income (summarize [?prize]) = PosInf" by simp
  have "lt_zero (amount ?debt) \<and> (expenses (summarize []) = PosInf \<or> amount ?debt = NegInf) \<longrightarrow>
        expenses (summarize ([] @ [?debt])) = PosInf"
    using summarize_totals [where ts = "[]" and q = "0" and ks = "[]" and t = "?debt"
        and a = "0" and b = "0" and c = "0" and d = "0" and k = "0" and j = "0" and x = "1"
        and y = "1" and n = "0" and p = "0"]
    by (elim conjE) assumption
  then have d: "expenses (summarize [?debt]) = PosInf" by simp
  have "0 < ?x \<longrightarrow>
      (round64 ?x = PosInf \<or> (\<exists>y. round64 ?x = Fin y \<and> 0 \<le> y)) \<and>
      (round64 ?x = PosInf) = ((2 ^ 54 - 1) * pow2 970 \<le> ?x) \<and>
      (round64 ?x = Fin ?y \<longrightarrow>
         (\<exists>m e. \<bar>m\<bar> < 2 ^ 53 \<and> - 1074 \<le> e \<and> e \<le> 971 \<and> ?y = of_int m * pow2 e) \<and>
         (\<bar>5404319552844595 :: int\<bar> < 2 ^ 53 \<and> - 1074 \<le> (- 54 :: int) \<longrightarrow>
            \<bar>?x - ?y\<bar> \<le> \<bar>?x - of_int 5404319552844595 * pow2 (- 54)\<bar> \<and>
            (of_int 5404319552844595 * pow2 (- 54) \<noteq> ?y \<and>
             \<bar>?x - ?y\<bar> = \<bar>?x - of_int 5404319552844595 * pow2 (- 54)\<bar> \<longrightarrow>
               (\<exists>m e. ?y = of_int (2 * m) * pow2 e \<and>
                  \<bar>?y - of_int 5404319552844595 * pow2 (- 54)\<bar> = pow2 e))))"
    using summarize_totals [where ts = "[]" and q = "0" and ks = "[]" and t = "?tip" and a = "0"
        and b = "0" and c = "0" and d = "0" and k = "0" and j = "0" and x = "?x" and y = "?y"
        and n = "5404319552844595" and p = "- 54"]
    by (elim conjE) assumption
  moreover have "0 < ?x" by simp
  moreover have "\<bar>5404319552844595 :: int\<bar> < 2 ^ 53 \<and> - 1074 \<le> (- 54 :: int)" by simp
  moreover have "of_int 5404319552844595 * pow2 (- 54) \<noteq> ?y \<and> \<bar>?x - ?y\<bar> = \<bar>?x - of_int 5404319552844595 * pow2 (- 54)\<bar>"
    by (simp add: pow2_def)
  ultimately have r: "\<bar>?x - ?y\<bar> \<le> \<bar>?x - of_int 5404319552844595 * pow2 (- 54)\<bar>"
    "\<exists>m e. ?y = of_int (2 * m) * pow2 e \<and> \<bar>?y - of_int 5404319552844595 * pow2 (- 54)\<bar> = pow2 e"
    using tie_example by blast+
  from e i1 i2 x1 x2 p d r show ?thesis by (intro conjI)
qed

section \<open>The missing key\<close>

lemma stream_requests:
  "requests (resolved i c) = requests c" "requests (rejected i c) = requests c"
  "requests (chunkArrived i t c) = requests c" "requests (streamEnded m i c) = requests c"
  "requests (streamFailed i c) = requests c"
  by (simp_all add: resolved_def rejected_def chunkArrived_def streamEnded_def streamFailed_def
      Let_def)

lemma streamEnded_chat: "chat (page (streamEnded m i c)) = chat (page c)"
  using streamEnded_measures(3) [of i c m] streamEnded_idle [of i c m] by (cases "i < length (sends c) \<and> phase (sends c ! i) = Streaming") auto

lemma sendMessage_no_session_kept:
  "no_session c \<Longrightarrow> no_session (sendMessage sci text c)"
  using sendMessage_no_session [of "text" c sci] sendMessage_blank [of "text" sci c]
  by (cases "trim text = []") (auto simp: no_session_def)

lemma initializeChat_no_key:
  "API_KEY env = None \<or> API_KEY env = Some [] \<Longrightarrow>
   initializeChat env st = st\<lparr>chatHistory := chatHistory st @ [Message Model configurationErrorText False]\<rparr>"
  by (auto simp: initializeChat_def addMessage_def)

lemma step_no_session:
  assumes "API_KEY env = None \<or> API_KEY env = Some []" and "no_session c"
  shows "no_session (step env e c)"
proof (cases e)
  case (SelectProfile tag)
  show ?thesis
  proof (cases "profileSelector_hidden (page c) \<or> tag = None \<or> tag = Some []")
    case True
    with assms(2) SelectProfile show ?thesis
      by (auto simp: profileClick_def no_session_def)
  next
    case False
    then obtain p where p: "tag = Some p" "p \<noteq> []" by auto
    let ?c0 = "c\<lparr>page := initializeChat env ((page c)\<lparr>userProfile := Some p,
                profileSelector_hidden := True, app_hidden := False\<rparr>)\<rparr>"
    have "no_session ?c0"
      using assms by (simp add: initializeChat_no_key no_session_def)
    then have "no_session (sendMessage (numberToString env) (''Hi! My profile is: '' @ p) ?c0)"
      by (rule sendMessage_no_session_kept)
    with False p SelectProfile show ?thesis
      by (simp add: profileClick_def Let_def)
  qed
next
  case (TypeAndSubmit t)
  have "no_session (c\<lparr>page := (page c)\<lparr>chatInput_value := t\<rparr>\<rparr>)"
    using assms(2) by (simp add: no_session_def)
  then show ?thesis
    using TypeAndSubmit assms(2) by (simp add: formSubmit_def sendMessage_no_session_kept)
next
  case (ClickInHistory k j)
  have "\<And>v. no_session (c\<lparr>page := (page c)\<lparr>chatInput_value := v\<rparr>\<rparr>)"
    using assms(2) by (simp add: no_session_def)
  then have "\<And>v. no_session (formSubmit env (c\<lparr>page := (page c)\<lparr>chatInput_value := v\<rparr>\<rparr>))"
    by (simp add: formSubmit_def sendMessage_no_session_kept)
  moreover have "\<And>tb. no_session (c\<lparr>page := (page c)\<lparr>transactionTable := tb,
                             transactionView_hidden := False\<rparr>\<rparr>)"
    using assms(2) by (simp add: no_session_def)
  ultimately show ?thesis
    using ClickInHistory assms(2) by (auto simp: historyClick_def split: entry.splits)
next
  case CloseViewer
  then show ?thesis using assms(2) by (simp add: no_session_def)
next
  case (ChooseFile chosen)
  then show ?thesis
    using assms(2) by (cases chosen) (simp_all add: handleFileSelect_def no_session_def)
next
  case (FileLoaded t)
  then show ?thesis
    using assms(2)
    by (simp add: readerLoaded_def addTransactionAnalysisMessage_def addMessage_def no_session_def)
next
  case FileFailed
  then show ?thesis
    using assms(2) by (simp add: readerFailed_def resetFileInput_def addMessage_def no_session_def)
next
  case RemoveFile
  then show ?thesis using assms(2) by (simp add: resetFileInput_def no_session_def)
next
  case (Resolved i)
  then show ?thesis
    using assms(2) resolved_measures [of i c] by (simp add: no_session_def stream_requests)
next
  case (Rejected i)
  then show ?thesis
    using assms(2) rejected_measures [of i c] by (simp add: no_session_def stream_requests)
next
  case (ChunkArrived i t)
  then show ?thesis
    using assms(2) chunkArrived_measures [of i t c] by (simp add: no_session_def stream_requests)
next
  case (StreamEnded i)
  then show ?thesis
    using assms(2) by (simp add: no_session_def stream_requests streamEnded_chat)
next
  case (StreamFailed i)
  then show ?thesis
    using assms(2) streamFailed_measures [of i c] by (simp add: no_session_def stream_requests)
qed

lemma run_no_session:
  assumes "API_KEY env = None \<or> API_KEY env = Some []"
  shows "no_session c \<Longrightarrow> no_session (run env es c)"
  by (induction es arbitrary: c) (simp_all add: run_def step_no_session [OF assms])

lemma initial_no_session: "no_session initial"
  by (simp add: no_session_def initial_def)

text \<open>
  C4, as the program has it. With the key missing or empty, \<open>initializeChat\<close> appends the
  configuration message to the log and assigns no session. In every run from the loaded page
  there is then never a session and never a request, and every send with a text that is not
  blank appends the user message and, at once, the generic failure text, and leaves the
  controls enabled: what a failed stream shows as well.
\<close>

theorem missing_key:
  assumes "API_KEY env = None \<or> API_KEY env = Some []"
  shows "initializeChat env st =
           st\<lparr>chatHistory := chatHistory st @ [Message Model configurationErrorText False]\<rparr> \<and>
         chat (page (run env es initial)) = None \<and> requests (run env es initial) = [] \<and>
         (trim text \<noteq> [] \<and> chat (page c) = None \<longrightarrow>
            sendMessage sci text c =
              c\<lparr>page := (page c)\<lparr>chatHistory := chatHistory (page c) @
                             [Message User text False, Message Model failureText False],
                           chatInput_value := [], chatInput_disabled := False,
                           sendButton_disabled := False, attachButton_disabled := False\<rparr>\<rparr>)"
  using initializeChat_no_key [OF assms, of st] run_no_session [OF assms initial_no_session, of es]
    sendMessage_no_session [of "text" c sci]
  by (simp add: no_session_def)

text \<open>The theorem at the greeting and a typed message, without a key.\<close>

theorem missing_key_witness:
  "chat (page (run no_key_env [SelectProfile (Some ''Student''), TypeAndSubmit ''hello''] initial)) = None \<and>
   requests (run no_key_env [SelectProfile (Some ''Student''), TypeAndSubmit ''hello''] initial) = [] \<and>
   chatHistory (page (run no_key_env [SelectProfile (Some ''Student''), TypeAndSubmit ''hello''] initial))
     = [Message Model configurationErrorText False,
        Message User ''Hi! My profile is: Student'' False, Message Model failureText False,
        Message User ''hello'' False, Message Model failureText False]"
proof -
  have k: "API_KEY no_key_env = None \<or> API_KEY no_key_env = Some []"
    by (simp add: no_key_env_def)
  have "chatHistory (page (run no_key_env [SelectProfile (Some ''Student''), TypeAndSubmit ''hello''] initial))
     = [Message Model configurationErrorText False,
        Message User ''Hi! My profile is: Student'' False, Message Model failureText False,
        Message User ''hello'' False, Message Model failureText False]"
    by code_simp
  then show ?thesis
    using missing_key [OF k, of _ "[SelectProfile (Some ''Student''), TypeAndSubmit ''hello'']"]
    by simp
qed

text \<open>
  C4, as it is worded, asks for a terminal error distinct from the streaming error. Without a
  key the answer to the greeting is the text that a failed stream gives with a key, and the
  input is enabled again.
\<close>

theorem configuration_error_counterexample:
  "chatHistory (page (run no_key_env [SelectProfile (Some ''Student'')] initial)) ! 2
     = Message Model ''Sorry, something went wrong. Please try again.'' False \<and>
   chatHistory (page (run demo_env [SelectProfile (Some ''Student''), Resolved 0, StreamFailed 0] initial)) ! 1
     = Message Model ''Sorry, something went wrong. Please try again.'' False \<and>
   chatInput_disabled (page (run no_key_env [SelectProfile (Some ''Student'')] initial)) = False"
  by code_simp

section \<open>A send and its stream\<close>

lemma ready_session:
  "chat (page ready)
     = Some \<lparr>model = ''gemini-2.5-flash'', systemInstruction = systemInstructionFor (Some ''Student'')\<rparr>"
  by code_simp

lemma hello_not_blank: "trim ''hello'' \<noteq> []"
  by code_simp

text \<open>
  C7. A send with a text that is not blank, started with a session in any configuration: when
  the request is refused, or when it is answered and the stream throws after any chunks \<open>cs\<close>
  (also none), the placeholder holds the fixed failure text, the three controls are enabled,
  the call is finished, and the only request made is the one of the send itself: nothing is
  retried.
\<close>

theorem stream_failure_handled:
  assumes "trim text \<noteq> []" and "chat (page c) = Some s"
  shows "handled_failure c text (promptFor (numberToString env) (page c) text)
           (run env [Rejected (length (sends c))] (sendMessage (numberToString env) text c)) \<and>
         handled_failure c text (promptFor (numberToString env) (page c) text)
           (run env (Resolved (length (sends c)) # map (ChunkArrived (length (sends c))) cs
                      @ [StreamFailed (length (sends c))])
              (sendMessage (numberToString env) text c))"
  using rejected_handled [OF assms] streamFailed_handled [OF assms] by blast

text \<open>The theorem at a message typed after the completed greeting.\<close>

theorem stream_failure_handled_witness:
  "handled_failure ready ''hello'' (promptFor (numberToString demo_env) (page ready) ''hello'')
     (run demo_env [Rejected (length (sends ready))]
        (sendMessage (numberToString demo_env) ''hello'' ready)) \<and>
   handled_failure ready ''hello'' (promptFor (numberToString demo_env) (page ready) ''hello'')
     (run demo_env (Resolved (length (sends ready))
          # map (ChunkArrived (length (sends ready))) [''Hel'', ''lo'']
          @ [StreamFailed (length (sends ready))])
        (sendMessage (numberToString demo_env) ''hello'' ready))"
  using stream_failure_handled [OF hello_not_blank ready_session, of demo_env "[''Hel'', ''lo'']"]
  by simp

lemma chunks_shown:
  assumes "trim text \<noteq> []" and "chat (page c) = Some s"
  shows "chatHistory (page (run env (Resolved (length (sends c))
              # map (ChunkArrived (length (sends c))) (ch # cs)) (sendMessage sci text c)))
         = chatHistory (page c) @
             [Message User text False, Message Model (formatText (concat (ch # cs))) False]"
proof -
  let ?i = "length (sends c)"
  let ?c1 = "sendMessage sci text c"
  have w1: "waiting (sends c) (chatHistory (page c)) (Message User text False) loadingIndicators []
              Requesting ?c1"
    using assms by (rule waiting_sendMessage)
  have w2: "waiting (sends c) (chatHistory (page c)) (Message User text False) [] [] Streaming
              (resolved ?i ?c1)"
    by (simp add: resolved_waiting [OF w1]) (simp add: waiting_def)
  have "run env (Resolved ?i # map (ChunkArrived ?i) (ch # cs)) ?c1
          = run env (map (ChunkArrived ?i) (ch # cs)) (resolved ?i ?c1)"
    by (simp add: run_def)
  then show ?thesis
    using run_chunks [OF w2, of env ch cs] by simp
qed

lemma example_stream:
  "chatHistory (page (run demo_env
      [SelectProfile (Some ''Student''), Resolved 0, ChunkArrived 0 ''Hello '',
       ChunkArrived 0 ''**world**'', StreamEnded 0] initial)) ! 1
     = Message Model ''Hello <strong>world</strong>'' False \<and>
   chatInput_disabled (page (run demo_env
      [SelectProfile (Some ''Student''), Resolved 0, ChunkArrived 0 ''Hello '',
       ChunkArrived 0 ''**world**'', StreamEnded 0] initial)) = False \<and>
   sendButton_disabled (page (run demo_env
      [SelectProfile (Some ''Student''), Resolved 0, ChunkArrived 0 ''Hello '',
       ChunkArrived 0 ''**world**'', StreamEnded 0] initial)) = False \<and>
   attachButton_disabled (page (run demo_env
      [SelectProfile (Some ''Student''), Resolved 0, ChunkArrived 0 ''Hello '',
       ChunkArrived 0 ''**world**'', StreamEnded 0] initial)) = False"
  by code_simp

text \<open>
  C8, as the program has it. After the chunks \<open>ch # cs\<close> of a send the placeholder holds the
  formatted text of their concatenation, whatever it held before. Formatting reads the text
  from the left. A character that does not start a double asterisk is kept, a newline as
  \<^verbatim>\<open><br>\<close>. A double asterisk that is followed on its line by another one becomes, with
  the text \<open>b\<close> up to the nearest such double asterisk, \<^verbatim>\<open><strong>\<close> markup around \<open>b\<close>,
  in which single asterisks are kept; formatting goes on behind the closing double asterisk.
  A double asterisk with no other one before the next line terminator keeps its first
  asterisk, and formatting goes on with the second: so the asterisks around a span with a
  newline inside are kept. The stream \<^verbatim>\<open>Hello \<close>, \<^verbatim>\<open>**world**\<close> ends with
  \<^verbatim>\<open>Hello <strong>world</strong>\<close> and the input enabled.
\<close>

theorem chunks_rendered:
  assumes "trim text \<noteq> []" and "chat (page c) = Some s"
  shows "chatHistory (page (run env (Resolved (length (sends c))
              # map (ChunkArrived (length (sends c))) (ch # cs)) (sendMessage sci text c)))
           = chatHistory (page c) @
               [Message User text False, Message Model (formatText (concat (ch # cs))) False] \<and>
         formatText [] = [] \<and>
         (take 2 (x # q) \<noteq> ''**'' \<longrightarrow>
            formatText (x # q) = (if x = CHR 0x0A then ''<br>'' else [x]) @ formatText q) \<and>
         ((\<forall>y \<in> set b. \<not> isLineTerminator y) \<and> \<not> double_asterisk (b @ ''*'') \<longrightarrow>
            formatText (''**'' @ b @ ''**'' @ r) = ''<strong>'' @ b @ ''</strong>'' @ formatText r) \<and>
         (\<not> double_asterisk (takeWhile (\<lambda>y. \<not> isLineTerminator y) t) \<longrightarrow>
            formatText (''**'' @ t) = ''*'' @ formatText (''*'' @ t)) \<and>
         (CHR ''*'' \<notin> set d \<and> CHR ''*'' \<notin> set d' \<longrightarrow>
            formatText (''**'' @ d @ CHR 0x0A # d' @ ''**'')
              = ''**'' @ replace_newlines d @ ''<br>'' @ replace_newlines d' @ ''**'') \<and>
         replace_newlines (u @ v) = replace_newlines u @ replace_newlines v \<and>
         replace_newlines [z] = (if z = CHR 0x0A then ''<br>'' else [z]) \<and>
         chatHistory (page (run demo_env
            [SelectProfile (Some ''Student''), Resolved 0, ChunkArrived 0 ''Hello '',
             ChunkArrived 0 ''**world**'', StreamEnded 0] initial)) ! 1
           = Message Model ''Hello <strong>world</strong>'' False \<and>
         chatInput_disabled (page (run demo_env
            [SelectProfile (Some ''Student''), Resolved 0, ChunkArrived 0 ''Hello '',
             ChunkArrived 0 ''**world**'', StreamEnded 0] initial)) = False"
proof -
  have "replace_newlines [z] = (if z = CHR 0x0A then ''<br>'' else [z])"
    by (simp add: replace_newlines_def)
  moreover have "CHR ''*'' \<notin> set d \<and> CHR ''*'' \<notin> set d' \<longrightarrow>
            formatText (''**'' @ d @ CHR 0x0A # d' @ ''**'')
              = ''**'' @ replace_newlines d @ ''<br>'' @ replace_newlines d' @ ''**''"
    using formatText_broken [of d d'] by blast
  moreover have "(\<forall>y \<in> set b. \<not> isLineTerminator y) \<and> \<not> double_asterisk (b @ ''*'') \<longrightarrow>
            formatText (''**'' @ b @ ''**'' @ r) = ''<strong>'' @ b @ ''</strong>'' @ formatText r"
    using formatText_nearest [of b r] by blast
  moreover have "\<not> double_asterisk (takeWhile (\<lambda>y. \<not> isLineTerminator y) t) \<longrightarrow>
            formatText (''**'' @ t) = ''*'' @ formatText (''*'' @ t)"
    using formatText_open [of t] by blast
  moreover have "take 2 (x # q) \<noteq> ''**'' \<longrightarrow>
            formatText (x # q) = (if x = CHR 0x0A then ''<br>'' else [x]) @ formatText q"
    using formatText_char [of x q] by blast
  ultimately show ?thesis
    using chunks_shown [OF assms, of env ch cs] formatText_Nil
      replace_newlines_append [of u v] example_stream
    by blast
qed

text \<open>
  The theorem at the two chunks of the example, sent after the completed greeting, at a span
  with an asterisk inside, at a newline, at a double asterisk that is not closed, and at a
  span with a newline inside.
\<close>

theorem chunks_rendered_witness:
  "chatHistory (page (run demo_env (Resolved (length (sends ready))
        # map (ChunkArrived (length (sends ready))) [''Hello '', ''**world**''])
        (sendMessage (numberToString demo_env) ''hello'' ready)))
     = chatHistory (page ready) @
         [Message User ''hello'' False,
          Message Model (formatText (concat [''Hello '', ''**world**''])) False] \<and>
   formatText (''**'' @ ''a*b'' @ ''**'' @ []) = ''<strong>'' @ ''a*b'' @ ''</strong>'' @ [] \<and>
   formatText (CHR 0x0A # ''a'') = ''<br>'' @ formatText ''a'' \<and>
   formatText (''**'' @ ''open'') = ''*'' @ formatText (''*'' @ ''open'') \<and>
   formatText (''**'' @ ''bold'' @ CHR 0x0A # ''text'' @ ''**'') = ''**bold<br>text**''"
proof -
  have "formatText (''**'' @ ''a*b'' @ ''**'' @ []) = ''<strong>'' @ ''a*b'' @ ''</strong>'' @ formatText []"
    and "formatText [] = []"
    and "formatText (CHR 0x0A # ''a'') = ''<br>'' @ formatText ''a''"
    and "formatText (''**'' @ ''open'') = ''*'' @ formatText (''*'' @ ''open'')"
    and "formatText (''**'' @ ''bold'' @ CHR 0x0A # ''text'' @ ''**'')
          = ''**'' @ replace_newlines ''bold'' @ ''<br>'' @ replace_newlines ''text'' @ ''**''"
    and "chatHistory (page (run demo_env (Resolved (length (sends ready))
        # map (ChunkArrived (length (sends ready))) [''Hello '', ''**world**''])
        (sendMessage (numberToString demo_env) ''hello'' ready)))
     = chatHistory (page ready) @
         [Message User ''hello'' False,
          Message Model (formatText (concat [''Hello '', ''**world**''])) False]"
    using chunks_rendered [OF hello_not_blank ready_session,
        where env = demo_env and ch = "''Hello ''" and cs = "[''**world**'']"
          and sci = "numberToString demo_env" and b = "''a*b''" and r = "[]"
          and x = "CHR 0x0A" and q = "''a''" and t = "''open''"
          and d = "''bold''" and d' = "''text''"]
    by (simp_all add: isLineTerminator_def)
  then show ?thesis
    by (simp add: replace_newlines_def)
qed

text \<open>
  C8, as it is worded, turns every span between double asterisks into markup. A span with a
  newline inside is displayed with its asterisks.
\<close>

theorem span_across_lines_counterexample:
  "chatHistory (page (run demo_env
      [SelectProfile (Some ''Student''), Resolved 0, ChunkArrived 0 ''**bold\<newline>text**''] initial)) ! 1
     = Message Model ''**bold<br>text**'' False"
  by code_simp

text \<open>
  C3 fails on this run: after the completed greeting the user clicks a suggested prompt and,
  while that send waits, a second one. When the first of the two completes, the controls are
  enabled although the second is still waiting for its stream.
\<close>

theorem overlapping_sends:
  "requests (run demo_env
      [SelectProfile (Some ''Student''), Resolved 0, ChunkArrived 0 ''Hello'', StreamEnded 0,
       ClickInHistory 2 0, ClickInHistory 2 1, Resolved 1, StreamEnded 1] initial)
     = [''Hi! My profile is: Student'', ''How do I build credit?'', ''Budgeting tips for students''] \<and>
   map phase (sends (run demo_env
      [SelectProfile (Some ''Student''), Resolved 0, ChunkArrived 0 ''Hello'', StreamEnded 0,
       ClickInHistory 2 0, ClickInHistory 2 1, Resolved 1, StreamEnded 1] initial))
     = [Finished, Finished, Requesting] \<and>
   chatInput_disabled (page (run demo_env
      [SelectProfile (Some ''Student''), Resolved 0, ChunkArrived 0 ''Hello'', StreamEnded 0,
       ClickInHistory 2 0, ClickInHistory 2 1, Resolved 1, StreamEnded 1] initial)) = False \<and>
   sendButton_disabled (page (run demo_env
      [SelectProfile (Some ''Student''), Resolved 0, ChunkArrived 0 ''Hello'', StreamEnded 0,
       ClickInHistory 2 0, ClickInHistory 2 1, Resolved 1, StreamEnded 1] initial)) = False \<and>
   attachButton_disabled (page (run demo_env
      [SelectProfile (Some ''Student''), Resolved 0, ChunkArrived 0 ''Hello'', StreamEnded 0,
       ClickInHistory 2 0, ClickInHistory 2 1, Resolved 1, StreamEnded 1] initial)) = False"
  by code_simp

section \<open>The prompt and the message shown\<close>

lemma with_file_session:
  "chat (page with_file)
     = Some \<lparr>model = ''gemini-2.5-flash'', systemInstruction = systemInstructionFor (Some ''Student'')\<rparr>"
  by code_simp

lemma with_file_context:
  "uploadedFile (page with_file) = Some ''january.csv'' \<and>
   transactions (page with_file)
     = [\<lparr>date = ''2024-01-01'', description = ''Salary'', amount = Fin 2500\<rparr>,
        \<lparr>date = ''2024-01-02'', description = ''Groceries'', amount = Fin (- 85 / 2)\<rparr>]"
  by code_simp

lemma example_summary:
  "summarize [\<lparr>date = ''2024-01-01'', description = ''Salary'', amount = Fin 2500\<rparr>,
        \<lparr>date = ''2024-01-02'', description = ''Groceries'', amount = Fin (- 85 / 2)\<rparr>]
     = \<lparr>count = 2, income = Fin 2500, expenses = Fin (85 / 2)\<rparr>"
  by code_simp

text \<open>
  C6, as the program has it. A send with a text that is not blank and a session hands one
  prompt to the model and appends the user's own text to the log. With a file attached and
  records held the prompt is the summary sentence with the count and the two totals, a blank
  line, and the instruction with the user's text in double quotes; otherwise it is the user's
  text. A total is \<open>+Infinity\<close> or finite and not below zero; it is printed as \<^verbatim>\<open>Infinity\<close>, or,
  below \<open>10 ^ 21\<close>, as the nearest number of hundredths with two decimals.
\<close>

theorem prompt_and_display:
  assumes "trim text \<noteq> []" and "chat (page c) = Some s"
  shows \<open>requests (sendMessage sci text c) = requests c @ [promptFor sci (page c) text] \<and>
         chatHistory (page (sendMessage sci text c))
           = chatHistory (page c)
               @ [Message User text False, Message Model loadingIndicators False] \<and>
         (uploadedFile (page c) \<noteq> None \<and> transactions (page c) \<noteq> [] \<longrightarrow>
            promptFor sci (page c) text
              = ''The user has uploaded a CSV with '' @ show_nat (count (summarize (transactions (page c))))
                @ '' transactions. Total income: ''
                @ toFixed2 sci (income (summarize (transactions (page c))))
                @ '', Total expenses: ''
                @ toFixed2 sci (expenses (summarize (transactions (page c))))
                @ ''.\<newline>\<newline>Please answer the user's question based on this data: "''
                @ text @ ''"'') \<and>
         (uploadedFile (page c) = None \<or> transactions (page c) = [] \<longrightarrow>
            promptFor sci (page c) text = text) \<and>
         nonneg (income (summarize ts)) \<and> nonneg (expenses (summarize ts)) \<and>
         toFixed2 sci PosInf = ''Infinity'' \<and>
         (0 \<le> r \<and> r < 10 ^ 21 \<longrightarrow>
            toFixed2 sci (Fin r) = two_decimals (hundredths r) \<and>
            \<bar>of_nat (hundredths r) / 100 - r\<bar> \<le> 1 / 200)\<close>
  using sendMessage_session [OF assms, of sci] summarize_nonneg [of ts]
    toFixed2_two_decimals [of r sci] hundredths_nearest [of r]
  by (auto simp: promptFor_def summarySentence_def summarize_def)

lemma show_nat_numeral:
  "show_nat (numeral k) =
     (if numeral k < (10::nat) then [digit (numeral k)]
      else show_nat (numeral k div 10) @ [digit (numeral k mod 10)])"
  by (rule show_nat.simps)

lemma floor_numeral_quotient:
  "\<lfloor>(numeral a :: rat) / numeral b\<rfloor> = numeral a div numeral b"
  by (metis floor_divide_of_int_eq of_int_numeral)

lemma example_amounts_formatted:
  "toFixed2 sci (Fin 2500) = ''2500.00''" "toFixed2 sci (Fin (85 / 2)) = ''42.50''"
  "show_nat 2 = ''2''"
  by (simp_all add: fixed2_def digit_def floor_numeral_quotient show_nat_numeral)

text \<open>The theorem at the example file of C2.\<close>

theorem prompt_and_display_witness:
  \<open>requests (sendMessage (numberToString demo_env) ''hello'' with_file)
     = requests with_file
       @ [''The user has uploaded a CSV with 2 transactions. Total income: 2500.00, Total expenses: 42.50.\<newline>\<newline>Please answer the user's question based on this data: "hello"''] \<and>
   chatHistory (page (sendMessage (numberToString demo_env) ''hello'' with_file))
     = chatHistory (page with_file)
         @ [Message User ''hello'' False, Message Model loadingIndicators False]\<close>
proof -
  have ctx: "uploadedFile (page with_file) \<noteq> None \<and> transactions (page with_file) \<noteq> []"
    using with_file_context by simp
  have s: "summarize (transactions (page with_file))
             = \<lparr>count = 2, income = Fin 2500, expenses = Fin (85 / 2)\<rparr>"
    using with_file_context example_summary by simp
  show ?thesis
    using prompt_and_display [OF hello_not_blank with_file_session, of "numberToString demo_env"]
      ctx s example_amounts_formatted
    by simp
qed

text \<open>
  C6, as it is worded, has the totals rounded to two decimals and the user's text prefixed.
  With the record of the line \<^verbatim>\<open>2024-01-03,Bonus,Infinity\<close> held, the income is printed as
  \<^verbatim>\<open>Infinity\<close>, and the user's text stands in quotes before the end of the prompt.
\<close>

theorem prompt_counterexample:
  \<open>requests (sendMessage (numberToString demo_env) ''hi'' with_bonus) ! 1
     = ''The user has uploaded a CSV with 1 transactions. Total income: Infinity, Total expenses: 0.00.\<newline>\<newline>Please answer the user's question based on this data: "hi"''\<close>
  by code_simp

section \<open>Suggested prompts and the greeting\<close>

lemma three_prompts: "map_of suggestedPrompts p = Some ps \<Longrightarrow> length ps = 3"
  by (auto simp: suggestedPrompts_def split: if_splits)

text \<open>
  C5, as the program has it. In every run from the loaded page the log holds at most one block
  of suggested prompts. An event adds a block exactly when it lets a call complete normally
  while the log holds exactly one element that \<^verbatim>\<open>.message.user\<close> matches and the profile has
  prompts in the table; the block is then appended at the end of the log. Once the first user
  turn is over, no event adds a block any more. The elements counted are at least the user
  messages, and exactly the user messages when the parser made no such element of a message
  text. Every entry of the table has three prompts.
\<close>

theorem suggested_prompts_once:
  "blocks (run env es initial) \<le> 1 \<and>
   blocks (step env e c) =
     blocks c + (if completes e c \<and> userMessageCount (userMessageElements env) (page c) = 1 \<and>
                    profilePrompts (userProfile (page c)) \<noteq> []
                 then 1 else 0) \<and>
   (completes e c \<and> userMessageCount (userMessageElements env) (page c) = 1 \<and>
    profilePrompts (userProfile (page c)) \<noteq> [] \<longrightarrow>
      chatHistory (page (step env e c))
        = chatHistory (page c) @ [SuggestedPrompts (profilePrompts (userProfile (page c)))]) \<and>
   (missed c \<longrightarrow> blocks (run env es c) = blocks c) \<and>
   userTurns c \<le> userMessageCount (userMessageElements env) (page c) \<and>
   (markup_free (userMessageElements env) (page c) \<longrightarrow>
      userMessageCount (userMessageElements env) (page c) = userTurns c) \<and>
   (map_of suggestedPrompts p = Some ps \<longrightarrow> length ps = 3)"
proof -
  have "blocks (run env es initial) \<le> 1"
    using once_run [OF once_initial, of env es] by (simp add: once_def)
  moreover have "completes e c \<and> userMessageCount (userMessageElements env) (page c) = 1 \<and>
      profilePrompts (userProfile (page c)) \<noteq> [] \<longrightarrow>
      chatHistory (page (step env e c))
        = chatHistory (page c) @ [SuggestedPrompts (profilePrompts (userProfile (page c)))]"
    using step_completes(3) [of e c env] by blast
  moreover have "userTurns c \<le> userMessageCount (userMessageElements env) (page c)"
    by (simp add: userTurns_def userEntries_le)
  moreover have "markup_free (userMessageElements env) (page c) \<longrightarrow>
      userMessageCount (userMessageElements env) (page c) = userTurns c"
    by (simp add: userTurns_def markup_free_count)
  ultimately show ?thesis
    using step_blocks [of env e c] missed_run [of c env es] three_prompts [of p ps] by blast
qed

lemma streaming_facts:
  "completes (StreamEnded 0) streaming \<and>
   userMessageCount (userMessageElements demo_env) (page streaming) = 1 \<and>
   markup_free (userMessageElements demo_env) (page streaming) \<and>
   userTurns streaming = 1 \<and>
   profilePrompts (userProfile (page streaming))
     = [''How do I build credit?'', ''Budgeting tips for students'', ''Should I start investing?'']"
  by code_simp

lemma failed_facts: "missed failed \<and> blocks failed = 0"
  by code_simp

text \<open>
  The theorem at the end of the greeting's stream, and at a message sent after a greeting
  that failed.
\<close>

theorem suggested_prompts_once_witness:
  "chatHistory (page (step demo_env (StreamEnded 0) streaming))
     = chatHistory (page streaming) @
         [SuggestedPrompts [''How do I build credit?'', ''Budgeting tips for students'',
            ''Should I start investing?'']] \<and>
   blocks (step demo_env (StreamEnded 0) streaming) = blocks streaming + 1 \<and>
   blocks (run demo_env [TypeAndSubmit ''hello'', Resolved 1, StreamEnded 1] failed) = 0 \<and>
   userMessageCount (userMessageElements demo_env) (page streaming) = userTurns streaming \<and>
   length [''How do I build credit?'', ''Budgeting tips for students'', ''Should I start investing?'']
     = 3"
  using suggested_prompts_once [of demo_env "[TypeAndSubmit ''hello'', Resolved 1, StreamEnded 1]"
      "StreamEnded 0" streaming] suggested_prompts_once [of demo_env
      "[TypeAndSubmit ''hello'', Resolved 1, StreamEnded 1]" "StreamEnded 0" failed]
    streaming_facts failed_facts
  by simp

text \<open>
  C5, as it is worded, puts the block after the first user turn that completes normally. When
  the greeting is refused and the next message completes normally, the log ends with that
  message's response and holds no block.
\<close>

theorem first_turn_failed_counterexample:
  "chatHistory (page (run demo_env
      [SelectProfile (Some ''Student''), Rejected 0, TypeAndSubmit ''hello'', Resolved 1,
       ChunkArrived 1 ''Welcome'', StreamEnded 1] initial))
     = [Message User ''Hi! My profile is: Student'' False,
        Message Model ''Sorry, something went wrong. Please try again.'' False,
        Message User ''hello'' False, Message Model ''Welcome'' False] \<and>
   phase (sends (run demo_env
      [SelectProfile (Some ''Student''), Rejected 0, TypeAndSubmit ''hello'', Resolved 1,
       ChunkArrived 1 ''Welcome'', StreamEnded 1] initial) ! 1) = Finished"
  by code_simp

lemma streamEnded_first:
  assumes w: "waiting S H u html full Streaming c"
    and u: "userMessageCount m (page c) = 1"
    and p: "userProfile (page c) = Some p" "map_of suggestedPrompts p = Some ps"
  shows "chatHistory (page (streamEnded m (length S) c))
           = H @ [u, Message Model html False, SuggestedPrompts ps]"
proof -
  from w have i: "length S < length (sends c)" and s: "phase (sends c ! length S) = Streaming"
    and h: "chatHistory (page c) = H @ [u, Message Model html False]"
    by (simp_all add: waiting_def)
  have "ps \<noteq> []" using three_prompts [OF p(2)] by auto
  then have "userMessageCount m (page c) = 1 \<and> profilePrompts (userProfile (page c)) \<noteq> []"
    using u p by (simp add: profilePrompts_def)
  from streamEnded_measures(5) [OF i s this] show ?thesis
    using h p by (simp add: profilePrompts_def)
qed

lemma streamEnded_none:
  assumes w: "waiting S H u html full Streaming c"
    and n: "userMessageCount m (page c) \<noteq> 1 \<or> profilePrompts (userProfile (page c)) = []"
  shows "blocks (streamEnded m (length S) c) = blocks c"
proof -
  from w have i: "length S < length (sends c)" and s: "phase (sends c ! length S) = Streaming"
    by (simp_all add: waiting_def)
  from n have "\<not> (userMessageCount m (page c) = 1 \<and> profilePrompts (userProfile (page c)) \<noteq> [])"
    by blast
  from streamEnded_measures(6) [OF i s this] show ?thesis .
qed

lemma greeting_sent:
  assumes "p \<noteq> []"
  shows "step env (SelectProfile (Some p)) initial
           = sendMessage (numberToString env) (''Hi! My profile is: '' @ p)
               (initial\<lparr>page := initializeChat env ((page initial)\<lparr>userProfile := Some p,
                  profileSelector_hidden := True, app_hidden := False\<rparr>)\<rparr>)"
  using assms by (simp add: profileClick_def Let_def) (simp add: initial_def)

lemma greeting_only_user_message:
  assumes "p \<noteq> []"
  shows "filter isUserMessage (chatHistory (page (step env (SelectProfile (Some p)) initial)))
           = [Message User (''Hi! My profile is: '' @ p) False]"
proof -
  let ?g = "''Hi! My profile is: '' @ p"
  let ?c0 = "initial\<lparr>page := initializeChat env ((page initial)\<lparr>userProfile := Some p,
                  profileSelector_hidden := True, app_hidden := False\<rparr>)\<rparr>"
  have nb: "trim ?g \<noteq> []" by (rule greeting_not_blank)
  have h0: "filter isUserMessage (chatHistory (page ?c0)) = []"
    by (simp add: initializeChat_def addMessage_def initial_def isUserMessage_def)
  show ?thesis
  proof (cases "chat (page ?c0)")
    case None
    from sendMessage_no_session [OF nb None, of "numberToString env"] greeting_sent [OF assms, of env]
      h0
    show ?thesis by (simp add: isUserMessage_def)
  next
    case (Some s)
    from sendMessage_session [OF nb Some, of "numberToString env"] greeting_sent [OF assms, of env]
      h0
    show ?thesis by (simp add: isUserMessage_def)
  qed
qed

lemma greeting_completed:
  assumes "p \<noteq> []" and "API_KEY env = Some k" and "k \<noteq> []"
  shows "requests (step env (SelectProfile (Some p)) initial) = [''Hi! My profile is: '' @ p]"
    and "map_of suggestedPrompts p = Some ps \<and>
         userMessageElements env (''Hi! My profile is: '' @ p) = 0 \<and>
         userMessageElements env (formatText (concat cs)) = 0 \<Longrightarrow>
         chatHistory (page (run env (SelectProfile (Some p) # Resolved 0 # map (ChunkArrived 0) cs
                                      @ [StreamEnded 0]) initial))
           = [Message User (''Hi! My profile is: '' @ p) False,
              Message Model (formatText (concat cs)) False, SuggestedPrompts ps]"
    and "map_of suggestedPrompts p = None \<or>
         0 < userMessageElements env (''Hi! My profile is: '' @ p) +
             userMessageElements env (formatText (concat cs)) \<Longrightarrow>
         blocks (run env (SelectProfile (Some p) # Resolved 0 # map (ChunkArrived 0) cs
                           @ [StreamEnded 0]) initial) = 0"
proof -
  let ?g = "''Hi! My profile is: '' @ p"
  let ?u = "Message User ?g False"
  let ?c0 = "initial\<lparr>page := initializeChat env ((page initial)\<lparr>userProfile := Some p,
                  profileSelector_hidden := True, app_hidden := False\<rparr>)\<rparr>"
  let ?c1 = "sendMessage (numberToString env) ?g ?c0"
  let ?m = "userMessageElements env"
  have nb: "trim ?g \<noteq> []" by (rule greeting_not_blank)
  have c0: "chat (page ?c0) = Some \<lparr>model = ''gemini-2.5-flash'',
              systemInstruction = systemInstructionFor (Some p)\<rparr>"
    "chatHistory (page ?c0) = []" "sends ?c0 = []" "requests ?c0 = []"
    "userProfile (page ?c0) = Some p" "uploadedFile (page ?c0) = None"
    using assms(2,3) by (simp_all add: initializeChat_def initial_def)
  note s1 = sendMessage_session [OF nb c0(1), of "numberToString env"]
  from s1 greeting_sent [OF assms(1), of env] c0
  show "requests (step env (SelectProfile (Some p)) initial) = [?g]"
    by (simp add: promptFor_def)
  have w1: "waiting [] [] ?u loadingIndicators [] Requesting ?c1"
    using waiting_sendMessage [OF nb c0(1), of "numberToString env"] c0 by simp
  define c2 where "c2 = resolved 0 ?c1"
  have w2: "waiting [] [] ?u [] [] Streaming c2"
    unfolding c2_def using resolved_waiting [OF w1] by (simp add: waiting_def)
  have p2: "userProfile (page c2) = Some p"
    unfolding c2_def using resolved_waiting [OF w1] c0 s1 by simp
  define c3 where "c3 = run env (map (ChunkArrived 0) cs) c2"
  have w3: "waiting [] [] ?u (formatText (concat cs)) (concat cs) Streaming c3"
    and p3: "userProfile (page c3) = Some p"
  proof -
    show "waiting [] [] ?u (formatText (concat cs)) (concat cs) Streaming c3"
    proof (cases cs)
      case Nil
      then show ?thesis using w2 by (simp add: c3_def run_def formatText_Nil)
    next
      case (Cons ch cs')
      then show ?thesis
        unfolding c3_def using run_chunks [OF w2, of env ch cs'] by (simp add: waiting_def)
    qed
    show "userProfile (page c3) = Some p"
    proof (cases cs)
      case Nil
      then show ?thesis using p2 by (simp add: c3_def run_def)
    next
      case (Cons ch cs')
      then show ?thesis
        unfolding c3_def using run_chunks [OF w2, of env ch cs'] p2 by simp
    qed
  qed
  have u3: "userMessageCount ?m (page c3) = 1 + (?m ?g + ?m (formatText (concat cs)))"
    using w3 by (simp add: waiting_def userMessageCount_def userElements_def)
  have b3: "blocks c3 = 0"
    using w3 by (simp add: waiting_def blocks_def promptBlocks_def isPromptBlock_def)
  have e: "run env (SelectProfile (Some p) # Resolved 0 # map (ChunkArrived 0) cs @ [StreamEnded 0])
          initial = streamEnded ?m 0 c3"
    unfolding c3_def c2_def greeting_sent [OF assms(1), symmetric] by (simp add: run_def)
  show "chatHistory (page (run env (SelectProfile (Some p) # Resolved 0
                # map (ChunkArrived 0) cs @ [StreamEnded 0]) initial))
           = [?u, Message Model (formatText (concat cs)) False, SuggestedPrompts ps]"
    if "map_of suggestedPrompts p = Some ps \<and> ?m ?g = 0 \<and> ?m (formatText (concat cs)) = 0"
  proof -
    from that u3 have "userMessageCount ?m (page c3) = 1" by simp
    from streamEnded_first [OF w3 this p3, of ps] that e show ?thesis by simp
  qed
  show "blocks (run env (SelectProfile (Some p) # Resolved 0 # map (ChunkArrived 0) cs
                           @ [StreamEnded 0]) initial) = 0"
    if "map_of suggestedPrompts p = None \<or> 0 < ?m ?g + ?m (formatText (concat cs))"
  proof -
    from that u3 p3
    have "userMessageCount ?m (page c3) \<noteq> 1 \<or> profilePrompts (userProfile (page c3)) = []"
      by (auto simp: profilePrompts_def)
    from streamEnded_none [OF w3 this] e b3 show ?thesis by simp
  qed
qed

text \<open>
  C9, as the program has it. On the loaded page, the click on a profile button with the tag
  \<open>p\<close> sends \<^verbatim>\<open>Hi! My profile is: p\<close>: it is the only user message of the log and, with a
  key, the prompt of the only request. When its stream completes normally, after any chunks
  \<open>cs\<close>: if \<open>p\<close> has an entry in the table and the parser made no element matching
  \<^verbatim>\<open>.message.user\<close> of the greeting or of the response, the log is the greeting, the response
  and the block of the profile's prompts; if \<open>p\<close> has no entry, or the parser made such an
  element, the log holds no block.
\<close>

theorem greeting_first_turn:
  assumes "p \<noteq> []"
  shows "filter isUserMessage (chatHistory (page (step env (SelectProfile (Some p)) initial)))
           = [Message User (''Hi! My profile is: '' @ p) False] \<and>
         (API_KEY env = Some k \<and> k \<noteq> [] \<longrightarrow>
            requests (step env (SelectProfile (Some p)) initial) = [''Hi! My profile is: '' @ p] \<and>
            (map_of suggestedPrompts p = Some ps \<and>
             userMessageElements env (''Hi! My profile is: '' @ p) = 0 \<and>
             userMessageElements env (formatText (concat cs)) = 0 \<longrightarrow>
               chatHistory (page (run env (SelectProfile (Some p) # Resolved 0
                                            # map (ChunkArrived 0) cs @ [StreamEnded 0]) initial))
                 = [Message User (''Hi! My profile is: '' @ p) False,
                    Message Model (formatText (concat cs)) False, SuggestedPrompts ps]) \<and>
            (map_of suggestedPrompts p = None \<or>
             0 < userMessageElements env (''Hi! My profile is: '' @ p) +
                 userMessageElements env (formatText (concat cs)) \<longrightarrow>
               blocks (run env (SelectProfile (Some p) # Resolved 0
                                 # map (ChunkArrived 0) cs @ [StreamEnded 0]) initial) = 0))"
  using greeting_only_user_message [OF assms, of env]
    greeting_completed(1) [OF assms, where env = env and k = k]
    greeting_completed(2) [OF assms, where env = env and k = k and ps = ps and cs = cs]
    greeting_completed(3) [OF assms, where env = env and k = k and cs = cs]
  by (intro conjI impI) simp_all

text \<open>
  The theorem at the profile \<^verbatim>\<open>Retiree\<close>, and at the tag \<^verbatim>\<open>Freelancer\<close>, which the table
  does not hold.
\<close>

theorem greeting_first_turn_witness:
  "filter isUserMessage
     (chatHistory (page (step demo_env (SelectProfile (Some ''Retiree'')) initial)))
     = [Message User ''Hi! My profile is: Retiree'' False] \<and>
   requests (step demo_env (SelectProfile (Some ''Retiree'')) initial)
     = [''Hi! My profile is: Retiree''] \<and>
   chatHistory (page (run demo_env (SelectProfile (Some ''Retiree'') # Resolved 0
        # map (ChunkArrived 0) [''Wel'', ''come''] @ [StreamEnded 0]) initial))
     = [Message User ''Hi! My profile is: Retiree'' False,
        Message Model (formatText (concat [''Wel'', ''come''])) False,
        SuggestedPrompts [''Managing retirement income'', ''Estate planning basics'',
          ''Minimizing taxes in retirement'']] \<and>
   blocks (run demo_env (SelectProfile (Some ''Freelancer'') # Resolved 0
        # map (ChunkArrived 0) [''Wel'', ''come''] @ [StreamEnded 0]) initial) = 0"
proof -
  have a: "''Retiree'' \<noteq> []" "''Freelancer'' \<noteq> []" by simp_all
  have b: "API_KEY demo_env = Some ''key'' \<and> ''key'' \<noteq> []" by (simp add: demo_env_def)
  have c: "map_of suggestedPrompts ''Retiree''
             = Some [''Managing retirement income'', ''Estate planning basics'',
                     ''Minimizing taxes in retirement'']"
    "map_of suggestedPrompts ''Freelancer'' = None"
    by (simp_all add: suggestedPrompts_def)
  have d: "userMessageElements demo_env (''Hi! My profile is: '' @ ''Retiree'') = 0"
    "userMessageElements demo_env (formatText (concat [''Wel'', ''come''])) = 0"
    by code_simp+
  show ?thesis
    using greeting_first_turn [OF a(1), of demo_env "''key''" _ "[''Wel'', ''come'']"]
      greeting_first_turn [OF a(2), of demo_env "''key''" _ "[''Wel'', ''come'']"] b c d
    by simp
qed

text \<open>
  C9, as it is worded, has the block rendered after the greeting's response on every profile
  selection. For a button with the tag \<^verbatim>\<open>Freelancer\<close>, which the table does not hold, the
  greeting completes normally and the log ends with its response. For the profile
  \<^verbatim>\<open>Student\<close> and a response that carries an element of the classes \<^verbatim>\<open>message user\<close>, the
  elements counted are two, and the log ends with the response as well.
\<close>

theorem greeting_without_block_counterexample:
  \<open>chatHistory (page (run demo_env
      [SelectProfile (Some ''Freelancer''), Resolved 0, ChunkArrived 0 ''Welcome'', StreamEnded 0]
      initial))
     = [Message User ''Hi! My profile is: Freelancer'' False, Message Model ''Welcome'' False] \<and>
   phase (sends (run demo_env
      [SelectProfile (Some ''Freelancer''), Resolved 0, ChunkArrived 0 ''Welcome'', StreamEnded 0]
      initial) ! 0) = Finished \<and>
   chatHistory (page (run demo_env
      [SelectProfile (Some ''Student''), Resolved 0,
       ChunkArrived 0 ''<div class="message user">x</div>'', StreamEnded 0] initial))
     = [Message User ''Hi! My profile is: Student'' False,
        Message Model ''<div class="message user">x</div>'' False] \<and>
   phase (sends (run demo_env
      [SelectProfile (Some ''Student''), Resolved 0,
       ChunkArrived 0 ''<div class="message user">x</div>'', StreamEnded 0] initial) ! 0) = Finished\<close>
  by code_simp

section \<open>The controls during a send\<close>

text \<open>
  A send that runs alone, with no other call started or resumed in between: the three controls
  are disabled from the call on, stay disabled while the chunks arrive, and are enabled when
  the stream has ended.
\<close>

lemma lone_send_flag:
  assumes "trim text \<noteq> []" and "chat (page c) = Some s"
  shows "controls_disabled (sendMessage sci text c)"
    and "controls_disabled (run env (Resolved (length (sends c))
            # map (ChunkArrived (length (sends c))) cs) (sendMessage sci text c))"
    and "controls_enabled (run env (Resolved (length (sends c))
            # map (ChunkArrived (length (sends c))) cs @ [StreamEnded (length (sends c))])
            (sendMessage sci text c))"
proof -
  let ?i = "length (sends c)"
  let ?H = "chatHistory (page c)"
  let ?u = "Message User text False"
  let ?c1 = "sendMessage sci text c"
  define c2 where "c2 = resolved ?i ?c1"
  define c3 where "c3 = run env (map (ChunkArrived ?i) cs) c2"
  have w1: "waiting (sends c) ?H ?u loadingIndicators [] Requesting ?c1"
    using assms by (rule waiting_sendMessage)
  show d1: "controls_disabled ?c1"
    using sendMessage_session [OF assms, of sci] by (simp add: controls_disabled_def)
  have w2: "waiting (sends c) ?H ?u [] [] Streaming c2"
    unfolding c2_def by (simp add: resolved_waiting [OF w1]) (simp add: waiting_def)
  have d2: "controls_disabled c2"
    unfolding c2_def using d1 by (simp add: resolved_waiting [OF w1] controls_disabled_def)
  have "(\<exists>html full. waiting (sends c) ?H ?u html full Streaming c3) \<and> controls_disabled c3"
  proof (cases cs)
    case Nil
    then show ?thesis using w2 d2 by (auto simp: c3_def run_def)
  next
    case (Cons ch cs')
    then show ?thesis
      unfolding c3_def using run_chunks [OF w2, of env ch cs'] d2
      by (simp add: waiting_def controls_disabled_def)
  qed
  then obtain html full where w3: "waiting (sends c) ?H ?u html full Streaming c3"
    and d3: "controls_disabled c3" by blast
  have e3: "run env (Resolved ?i # map (ChunkArrived ?i) cs) ?c1 = c3"
    unfolding c3_def c2_def by (simp add: run_def)
  show "controls_disabled (run env (Resolved ?i # map (ChunkArrived ?i) cs) ?c1)"
    unfolding e3 by (rule d3)
  have e4: "run env (Resolved ?i # map (ChunkArrived ?i) cs @ [StreamEnded ?i]) ?c1
              = streamEnded (userMessageElements env) ?i c3"
    unfolding c3_def c2_def by (simp add: run_def)
  show "controls_enabled (run env (Resolved ?i # map (ChunkArrived ?i) cs @ [StreamEnded ?i]) ?c1)"
    unfolding e4
    by (auto simp: streamEnded_waiting [OF w3] controls_enabled_def setFormState_def
        catch_finally_def split: sum.splits)
qed

end
